theory Spec2Isabelle
  imports Complex_Main
begin

section \<open>JavaScript values\<close>

text \<open>
  A JavaScript string is a sequence of UTF-16 code units; it is modelled as the list of
  their numbers, so that the separator U+2192 of the edge key and the Unicode white space
  removed by \<^verbatim>\<open>trim\<close> are single elements.  \<open>js\<close> embeds an ASCII literal.
  Integer-valued ids are modelled as \<open>int\<close>.
\<close>

type_synonym jsstring = "nat list"

definition js :: "string \<Rightarrow> jsstring" where
  "js s = map of_char s"

text \<open>The values a JSON field used as an id can hold: absent, null, a string, an integer.\<close>

datatype jsval = JUndefined | JNull | JString jsstring | JNumber int

text \<open>Decimal digits of a natural number, as \<^verbatim>\<open>String(n)\<close> prints them.\<close>

fun digits :: "nat \<Rightarrow> jsstring" where
  "digits n = (if n < 10 then [48 + n] else digits (n div 10) @ [48 + n mod 10])"

declare digits.simps [simp del]

definition String_int :: "int \<Rightarrow> jsstring" where
  "String_int i = (if i < 0 then 45 # digits (nat (- i)) else digits (nat i))"

text \<open>\<^verbatim>\<open>String(v)\<close>.\<close>

fun String_of :: "jsval \<Rightarrow> jsstring" where
  "String_of JUndefined = js ''undefined''"
| "String_of JNull = js ''null''"
| "String_of (JString s) = s"
| "String_of (JNumber i) = String_int i"

text \<open>Truthiness, as tested by \<^verbatim>\<open>!v\<close> and \<^verbatim>\<open>v || d\<close>.\<close>

fun truthy :: "jsval \<Rightarrow> bool" where
  "truthy JUndefined = False"
| "truthy JNull = False"
| "truthy (JString s) = (s \<noteq> [])"
| "truthy (JNumber i) = (i \<noteq> 0)"

text \<open>\<^verbatim>\<open>s || d\<close> on an optional string field and \<^verbatim>\<open>v || d\<close> on an optional number
  field: the empty string and zero are falsy, like an absent field.\<close>

fun or_string :: "jsstring option \<Rightarrow> jsstring \<Rightarrow> jsstring" where
  "or_string None d = d"
| "or_string (Some s) d = (if s = [] then d else s)"

fun or_number :: "real option \<Rightarrow> real \<Rightarrow> real" where
  "or_number None d = d"
| "or_number (Some v) d = (if v = 0 then d else v)"

text \<open>
  A JavaScript number is an IEEE double.  A finite double is a real number, and a number
  is modelled by that real (the two zeros are one value; no operation of the build yields
  an infinity or a NaN from finite JSON numbers).  Where the code's operation is exact on
  the doubles it meets, the model uses the operation of the reals: comparisons,
  \<^verbatim>\<open>Math.max\<close>, and sums, differences, products and halves of integers below \<open>2^53\<close> (the
  level index, the position in a band, the spacings).  The operations whose result is
  rounded or left to the implementation are parameters of the model, never computed:
  \<open>fl_mul\<close> and \<open>fl_div\<close> are the rounded product and quotient, \<open>fl_cos\<close> and \<open>fl_sin\<close> are
  \<^verbatim>\<open>Math.cos\<close> and \<^verbatim>\<open>Math.sin\<close>, \<open>fl_pi\<close> is \<^verbatim>\<open>Math.PI\<close>.  A decimal literal passed to them
  stands for the double nearest to it.
\<close>

record float_ops =
  fl_mul :: "real \<Rightarrow> real \<Rightarrow> real"
  fl_div :: "real \<Rightarrow> real \<Rightarrow> real"
  fl_cos :: "real \<Rightarrow> real"
  fl_sin :: "real \<Rightarrow> real"
  fl_pi :: real

text \<open>The product \<^verbatim>\<open>a * b\<close> of two doubles: a zero when a factor is a zero, the rounded
  product otherwise.\<close>

definition js_mul :: "float_ops \<Rightarrow> real \<Rightarrow> real \<Rightarrow> real" where
  "js_mul fl a b = (if a = 0 \<or> b = 0 then 0 else fl_mul fl a b)"

text \<open>White space and line terminators removed by \<^verbatim>\<open>String.prototype.trim\<close>.\<close>

definition isWhiteSpace :: "nat \<Rightarrow> bool" where
  "isWhiteSpace c =
     (c \<in> {9, 10, 11, 12, 13, 32, 160, 5760, 8232, 8233, 8239, 8287, 12288, 65279}
      \<or> (8192 \<le> c \<and> c \<le> 8202))"

definition trim :: "jsstring \<Rightarrow> jsstring" where
  "trim s = rev (dropWhile isWhiteSpace (rev (dropWhile isWhiteSpace s)))"

section \<open>Raw records\<close>

type_synonym props = "(jsstring \<times> jsval) list"

record raw_node =
  node_id :: jsval
  node_type :: "jsstring option"
  node_label :: "jsstring option"
  node_size :: "real option"
  node_color :: "jsstring option"
  node_properties :: "props option"

record raw_edge =
  edge_id :: jsval
  edge_source :: jsval
  edge_target :: jsval
  edge_type :: "jsstring option"
  edge_size :: "real option"
  edge_color :: "jsstring option"

text \<open>An element of \<^verbatim>\<open>data.edges\<close> is an object or something else (null, a number, a string).\<close>

datatype edge_json = NotAnObject | EdgeObject raw_edge

record raw_data =
  data_nodes :: "raw_node list option"
  data_edges :: "edge_json list option"

section \<open>The graph\<close>

text \<open>
  The part of graphology's \<^verbatim>\<open>MultiDirectedGraph\<close> that \<^verbatim>\<open>buildGraphFromData\<close> uses: nodes
  and edges in insertion order, each with its key and attributes.  A node key is any
  string, the empty string included; \<^verbatim>\<open>addNode\<close> is only called after \<^verbatim>\<open>hasNode\<close> has
  answered no, so the keys of a graph are distinct.  The placeholder node of the empty
  graph has no \<^verbatim>\<open>properties\<close> attribute.
\<close>

record node =
  n_key :: jsstring
  n_label :: jsstring
  n_size :: real
  n_color :: jsstring
  nodeType :: "jsstring option"
  n_properties :: "props option"
  n_x :: real
  n_y :: real

record edge =
  e_key :: jsstring
  e_source :: jsstring
  e_target :: jsstring
  e_size :: real
  e_color :: jsstring
  e_type :: jsstring
  relationshipType :: jsstring

record graph =
  nodes :: "node list"
  edges :: "edge list"

datatype error = TypeError | UsageGraphError | NotFoundGraphError

definition emptyGraph :: graph where
  "emptyGraph = \<lparr>nodes = [], edges = []\<rparr>"

definition hasNode :: "graph \<Rightarrow> jsstring \<Rightarrow> bool" where
  "hasNode g k = (k \<in> set (map n_key (nodes g)))"

definition addNode :: "node \<Rightarrow> graph \<Rightarrow> graph" where
  "addNode n g = g\<lparr>nodes := nodes g @ [n]\<rparr>"

definition setNodeAttribute_x :: "jsstring \<Rightarrow> real \<Rightarrow> graph \<Rightarrow> graph" where
  "setNodeAttribute_x k v g =
     g\<lparr>nodes := map (\<lambda>n. if n_key n = k then n\<lparr>n_x := v\<rparr> else n) (nodes g)\<rparr>"

definition setNodeAttribute_y :: "jsstring \<Rightarrow> real \<Rightarrow> graph \<Rightarrow> graph" where
  "setNodeAttribute_y k v g =
     g\<lparr>nodes := map (\<lambda>n. if n_key n = k then n\<lparr>n_y := v\<rparr> else n) (nodes g)\<rparr>"

text \<open>\<^verbatim>\<open>addEdgeWithKey\<close> throws when an endpoint is missing or the key is already in use;
  a multigraph accepts parallel edges and self loops.\<close>

definition addEdgeWithKey :: "edge \<Rightarrow> graph \<Rightarrow> error + graph" where
  "addEdgeWithKey e g =
     (if \<not> hasNode g (e_source e) then Inl NotFoundGraphError
      else if \<not> hasNode g (e_target e) then Inl NotFoundGraphError
      else if e_key e \<in> set (map e_key (edges g)) then Inl UsageGraphError
      else Inr (g\<lparr>edges := edges g @ [e]\<rparr>))"

section \<open>Initial layouts\<close>

definition typeOrder :: "jsstring list" where
  "typeOrder = [js ''Text'', js ''Section'', js ''Phrase'', js ''Word'', js ''Morpheme'', js ''Gloss'']"

text \<open>
  \<^verbatim>\<open>nodesByType\<close> is a plain object literal, so a lookup of a name that is not an own
  property finds the members inherited from \<^verbatim>\<open>Object.prototype\<close>.  For such a name
  \<^verbatim>\<open>!nodesByType[t]\<close> is false, no array is stored, and \<^verbatim>\<open>nodesByType[t].push\<close> is not a
  function: the call throws a TypeError.
\<close>

definition objectPrototypeKeys :: "jsstring list" where
  "objectPrototypeKeys =
     [js ''constructor'', js ''__defineGetter__'', js ''__defineSetter__'', js ''hasOwnProperty'',
      js ''__lookupGetter__'', js ''__lookupSetter__'', js ''isPrototypeOf'',
      js ''propertyIsEnumerable'', js ''toString'', js ''valueOf'', js ''__proto__'',
      js ''toLocaleString'']"

text \<open>\<^verbatim>\<open>attrs.nodeType || "Other"\<close>.\<close>

definition groupKey :: "node \<Rightarrow> jsstring" where
  "groupKey n = or_string (nodeType n) (js ''Other'')"

text \<open>The \<^verbatim>\<open>graph.forEachNode\<close> loop that fills \<^verbatim>\<open>nodesByType\<close> (own properties only).\<close>

fun groupNodes :: "node list \<Rightarrow> (jsstring \<rightharpoonup> jsstring list) \<Rightarrow> error + (jsstring \<rightharpoonup> jsstring list)" where
  "groupNodes [] m = Inr m"
| "groupNodes (n # ns) m =
     (case m (groupKey n) of
        Some ids \<Rightarrow> groupNodes ns (m(groupKey n \<mapsto> ids @ [n_key n]))
      | None \<Rightarrow>
          if groupKey n \<in> set objectPrototypeKeys then Inl TypeError
          else groupNodes ns (m(groupKey n \<mapsto> [n_key n])))"

text \<open>\<^verbatim>\<open>nodesByType[type] || []\<close> for a type of \<open>typeOrder\<close>.\<close>

definition nodesOfType :: "(jsstring \<rightharpoonup> jsstring list) \<Rightarrow> jsstring \<Rightarrow> jsstring list" where
  "nodesOfType m t = (case m t of None \<Rightarrow> [] | Some ids \<Rightarrow> ids)"

text \<open>The body of \<^verbatim>\<open>typeOrder.forEach\<close> in \<^verbatim>\<open>applyWordLayout\<close>.\<close>

definition placeBand :: "nat \<times> jsstring list \<Rightarrow> graph \<Rightarrow> graph" where
  "placeBand = (\<lambda>(levelIndex, ids) g.
     if ids = [] then g
     else
       let totalWidth = (real (length ids) - 1) * 150;
           startX = - totalWidth / 2;
           y = real levelIndex * 100
       in fold (\<lambda>(i, nodeId) g'.
             setNodeAttribute_y nodeId y (setNodeAttribute_x nodeId (startX + real i * 150) g'))
            (enumerate 0 ids) g)"

definition applyWordLayout :: "graph \<Rightarrow> error + graph" where
  "applyWordLayout g =
     (case groupNodes (nodes g) Map.empty of
        Inl e \<Rightarrow> Inl e
      | Inr m \<Rightarrow> Inr (fold placeBand (enumerate 0 (map (nodesOfType m) typeOrder)) g))"

text \<open>The body of \<^verbatim>\<open>typeOrder.forEach\<close> in \<^verbatim>\<open>applyRadialLayout\<close>.\<close>

definition placeRing :: "float_ops \<Rightarrow> nat \<times> jsstring list \<Rightarrow> graph \<Rightarrow> graph" where
  "placeRing fl = (\<lambda>(levelIndex, ids) g.
     if ids = [] then g
     else
       let radius = real levelIndex * 200
       in fold (\<lambda>(i, nodeId) g'.
             let angle = fl_div fl (js_mul fl (js_mul fl 2 (fl_pi fl)) (real i))
                           (real (length ids))
             in setNodeAttribute_y nodeId (js_mul fl radius (fl_sin fl angle))
                  (setNodeAttribute_x nodeId (js_mul fl radius (fl_cos fl angle)) g'))
            (enumerate 0 ids) g)"

definition applyRadialLayout :: "float_ops \<Rightarrow> graph \<Rightarrow> error + graph" where
  "applyRadialLayout fl g =
     (case groupNodes (nodes g) Map.empty of
        Inl e \<Rightarrow> Inl e
      | Inr m \<Rightarrow> Inr (fold (placeRing fl) (enumerate 0 (map (nodesOfType m) typeOrder)) g))"

section \<open>Building the graph\<close>

text \<open>First pass: sequential numbers for the ids of Section records.\<close>

fun collectSections :: "raw_node list \<Rightarrow> nat \<times> (jsstring \<rightharpoonup> nat) \<Rightarrow> nat \<times> (jsstring \<rightharpoonup> nat)" where
  "collectSections [] st = st"
| "collectSections (r # rs) (sectionCounter, sectionIdMap) =
     (if node_type r = Some (js ''Section'') then
        (if sectionIdMap (String_of (node_id r)) \<noteq> None
         then collectSections rs (sectionCounter, sectionIdMap)
         else collectSections rs
                (sectionCounter + 1, sectionIdMap(String_of (node_id r) \<mapsto> sectionCounter + 1)))
      else collectSections rs (sectionCounter, sectionIdMap))"

definition dynamicSize :: "raw_node \<Rightarrow> real" where
  "dynamicSize r =
     (let s = or_number (node_size r) 10 in
      if node_type r = Some (js ''Text'') then max s 25
      else if node_type r = Some (js ''Section'') then max s 18
      else if node_type r = Some (js ''Phrase'') then max s 12
      else if node_type r = Some (js ''Word'') then max s 8
      else if node_type r = Some (js ''Morpheme'') then max s 5
      else if node_type r = Some (js ''Gloss'') then max s 6
      else s)"

definition nodeLabel :: "(jsstring \<rightharpoonup> nat) \<Rightarrow> raw_node \<Rightarrow> jsstring" where
  "nodeLabel sectionIdMap r =
     (let nodeId = String_of (node_id r);
          l = or_string (node_label r) nodeId
      in if node_type r = Some (js ''Section'') then
           (case sectionIdMap nodeId of Some c \<Rightarrow> digits c | None \<Rightarrow> l)
         else l)"

definition makeNode :: "(jsstring \<rightharpoonup> nat) \<Rightarrow> raw_node \<Rightarrow> node" where
  "makeNode sectionIdMap r =
     \<lparr>n_key = String_of (node_id r),
      n_label = nodeLabel sectionIdMap r,
      n_size = dynamicSize r,
      n_color = or_string (node_color r) (js ''#64748b''),
      nodeType = node_type r,
      n_properties = Some (case node_properties r of None \<Rightarrow> [] | Some p \<Rightarrow> p),
      n_x = 0,
      n_y = 0\<rparr>"

text \<open>Second pass: a record whose id is already a node of the graph is skipped.\<close>

fun addNodes :: "(jsstring \<rightharpoonup> nat) \<Rightarrow> raw_node list \<Rightarrow> graph \<Rightarrow> graph" where
  "addNodes sectionIdMap [] g = g"
| "addNodes sectionIdMap (r # rs) g =
     (if hasNode g (String_of (node_id r)) then addNodes sectionIdMap rs g
      else addNodes sectionIdMap rs (addNode (makeNode sectionIdMap r) g))"

text \<open>The state of the edge loop: the graph, \<^verbatim>\<open>addedEdges\<close> and \<^verbatim>\<open>duplicateCount\<close>.\<close>

record edge_state =
  es_graph :: graph
  addedEdges :: "jsstring set"
  duplicateCount :: nat

definition edgeKey :: "jsstring \<Rightarrow> jsstring \<Rightarrow> jsstring" where
  "edgeKey sourceId targetId = sourceId @ [8594] @ targetId"

definition edgeSize :: "float_ops \<Rightarrow> bool \<Rightarrow> raw_edge \<Rightarrow> real" where
  "edgeSize fl isDenseGraph r =
     (if isDenseGraph then max (js_mul fl (or_number (edge_size r) 2) 0.8) 1.5
      else max (or_number (edge_size r) 2) 1.5)"

definition edgeColor :: "raw_edge \<Rightarrow> jsstring" where
  "edgeColor r = or_string (edge_color r) (js ''#60a5fa'') @ js ''DD''"

definition edgeId :: "raw_edge \<Rightarrow> jsstring \<Rightarrow> jsstring \<Rightarrow> nat \<Rightarrow> jsval" where
  "edgeId r sourceId targetId index =
     (if truthy (edge_id r) then edge_id r
      else JString (js ''edge-'' @ sourceId @ js ''-'' @ targetId @ js ''-'' @ digits index))"

definition makeEdge :: "float_ops \<Rightarrow> bool \<Rightarrow> raw_edge \<Rightarrow> jsstring \<Rightarrow> jsstring \<Rightarrow> jsstring \<Rightarrow> edge" where
  "makeEdge fl isDenseGraph r eid sourceId targetId =
     \<lparr>e_key = eid,
      e_source = sourceId,
      e_target = targetId,
      e_size = (if edgeSize fl isDenseGraph r = 0 then 2 else edgeSize fl isDenseGraph r),
      e_color = edgeColor r,
      e_type = js ''line'',
      relationshipType = or_string (edge_type r) []\<rparr>"

text \<open>The body of \<^verbatim>\<open>data.edges.forEach\<close>; an exception of \<^verbatim>\<open>addEdgeWithKey\<close> is caught
  and the record skipped.\<close>

fun processEdge :: "float_ops \<Rightarrow> bool \<Rightarrow> nat \<times> edge_json \<Rightarrow> edge_state \<Rightarrow> edge_state" where
  "processEdge fl isDenseGraph (index, NotAnObject) st = st"
| "processEdge fl isDenseGraph (index, EdgeObject r) st =
     (if \<not> truthy (edge_source r) \<or> \<not> truthy (edge_target r) then st
      else
        let sourceId = trim (String_of (edge_source r));
            targetId = trim (String_of (edge_target r))
        in
          if sourceId = [] \<or> targetId = [] then st
          else if edgeKey sourceId targetId \<in> addedEdges st
            then st\<lparr>duplicateCount := duplicateCount st + 1\<rparr>
          else if \<not> hasNode (es_graph st) sourceId then st
          else if \<not> hasNode (es_graph st) targetId then st
          else
            (case edgeId r sourceId targetId index of
               JString eid \<Rightarrow>
                 if eid = [] then st
                 else
                   (case addEdgeWithKey (makeEdge fl isDenseGraph r eid sourceId targetId) (es_graph st) of
                      Inl err \<Rightarrow> st
                    | Inr g' \<Rightarrow>
                        st\<lparr>es_graph := g',
                           addedEdges := insert (edgeKey sourceId targetId) (addedEdges st)\<rparr>)
             | _ \<Rightarrow> st))"

definition addEdges :: "float_ops \<Rightarrow> bool \<Rightarrow> edge_json list \<Rightarrow> graph \<Rightarrow> edge_state" where
  "addEdges fl isDenseGraph es g =
     fold (processEdge fl isDenseGraph) (enumerate 0 es)
       \<lparr>es_graph = g, addedEdges = {}, duplicateCount = 0\<rparr>"

definition placeholderNode :: node where
  "placeholderNode =
     \<lparr>n_key = js ''empty'',
      n_label = js ''No data yet - upload a .flextext file!'',
      n_size = 20,
      n_color = js ''#64748b'',
      nodeType = Some (js ''Empty''),
      n_properties = None,
      n_x = 50,
      n_y = 50\<rparr>"

text \<open>
  \<^verbatim>\<open>buildGraphFromData\<close> up to the force-directed stage: the graph and the
  \<^verbatim>\<open>duplicatesSkipped\<close> count of the logged summary.
\<close>

definition constructGraph :: "float_ops \<Rightarrow> raw_data \<Rightarrow> bool \<Rightarrow> error + graph \<times> nat" where
  "constructGraph fl data isWordVisualization =
     (case data_nodes data of
        None \<Rightarrow> Inr (addNode placeholderNode emptyGraph, 0)
      | Some ns \<Rightarrow>
          if ns = [] then Inr (addNode placeholderNode emptyGraph, 0)
          else
            let sectionIdMap = snd (collectSections ns (0, Map.empty));
                g0 = addNodes sectionIdMap ns emptyGraph
            in
              (case (if isWordVisualization then applyWordLayout g0 else applyRadialLayout fl g0) of
                 Inl e \<Rightarrow> Inl e
               | Inr g1 \<Rightarrow>
                   (case data_edges data of
                      None \<Rightarrow> Inr (g1, 0)
                    | Some es \<Rightarrow>
                        if es = [] then Inr (g1, 0)
                        else
                          let isDenseGraph = (length ns > 200 \<or> length es > 500);
                              st = addEdges fl isDenseGraph es g1
                          in Inr (es_graph st, duplicateCount st))))"

section \<open>Force-directed refinement\<close>

text \<open>
  ForceAtlas2 is an external library.  Its two entry points are parameters of the model:
  \<open>inferSettings\<close> yields the base settings of a graph, and \<open>layout\<close> yields the
  position that \<^verbatim>\<open>forceAtlas2.assign\<close> computes for each node key; \<open>assign\<close> writes these
  positions into the \<^verbatim>\<open>x\<close> and \<^verbatim>\<open>y\<close> attributes and touches nothing else.
\<close>

record 'b fa2_params =
  iterations :: nat
  baseSettings :: 'b
  gravity :: real
  scalingRatio :: real
  strongGravityMode :: bool
  barnesHutOptimize :: bool
  slowDown :: real
  linLogMode :: bool
  outboundAttractionDistribution :: bool
  adjustSizes :: bool
  edgeWeightInfluence :: real

definition wordPreset :: "'b \<Rightarrow> 'b fa2_params" where
  "wordPreset b =
     \<lparr>iterations = 20, baseSettings = b, gravity = 0.01, scalingRatio = 5,
      strongGravityMode = False, barnesHutOptimize = True, slowDown = 20,
      linLogMode = False, outboundAttractionDistribution = False, adjustSizes = False,
      edgeWeightInfluence = 0.05\<rparr>"

definition overviewPreset :: "'b \<Rightarrow> 'b fa2_params" where
  "overviewPreset b =
     \<lparr>iterations = 50, baseSettings = b, gravity = 0.03, scalingRatio = 15,
      strongGravityMode = False, barnesHutOptimize = True, slowDown = 15,
      linLogMode = True, outboundAttractionDistribution = True, adjustSizes = True,
      edgeWeightInfluence = 0.2\<rparr>"

text \<open>The call of \<^verbatim>\<open>forceAtlas2.assign\<close> that the build makes, or \<open>None\<close> when the guard
  \<^verbatim>\<open>graph.order > 0\<close> fails and the stage is skipped.\<close>

definition refinementCall :: "(graph \<Rightarrow> 'b) \<Rightarrow> bool \<Rightarrow> graph \<Rightarrow> 'b fa2_params option" where
  "refinementCall inferSettings isWordVisualization g =
     (if length (nodes g) > 0 then
        Some (if isWordVisualization then wordPreset (inferSettings g)
              else overviewPreset (inferSettings g))
      else None)"

definition assign :: "('b fa2_params \<Rightarrow> graph \<Rightarrow> jsstring \<Rightarrow> real \<times> real) \<Rightarrow> 'b fa2_params \<Rightarrow> graph \<Rightarrow> graph" where
  "assign layout p g =
     g\<lparr>nodes := map (\<lambda>n. n\<lparr>n_x := fst (layout p g (n_key n)), n_y := snd (layout p g (n_key n))\<rparr>)
                   (nodes g)\<rparr>"

definition buildGraphFromData ::
  "float_ops \<Rightarrow> (graph \<Rightarrow> 'b) \<Rightarrow> ('b fa2_params \<Rightarrow> graph \<Rightarrow> jsstring \<Rightarrow> real \<times> real) \<Rightarrow> raw_data \<Rightarrow> bool \<Rightarrow> error + graph" where
  "buildGraphFromData fl inferSettings layout data isWordVisualization =
     (case constructGraph fl data isWordVisualization of
        Inl e \<Rightarrow> Inl e
      | Inr (g, duplicatesSkipped) \<Rightarrow>
          (case refinementCall inferSettings isWordVisualization g of
             None \<Rightarrow> Inr g
           | Some p \<Rightarrow> Inr (assign layout p g)))"

section \<open>Auxiliary definitions\<close>

text \<open>A node without its position, and the effect of the layout loops on a single node.\<close>

definition withoutPosition :: "node \<Rightarrow> node" where
  "withoutPosition n = n\<lparr>n_x := 0, n_y := 0\<rparr>"

definition moveNode :: "(nat \<Rightarrow> real) \<Rightarrow> (nat \<Rightarrow> real) \<Rightarrow> nat \<times> jsstring \<Rightarrow> node \<Rightarrow> node" where
  "moveNode X Y = (\<lambda>(i, k) n. if n_key n = k then n\<lparr>n_x := X i, n_y := Y i\<rparr> else n)"

definition bandNode :: "nat \<times> jsstring list \<Rightarrow> node \<Rightarrow> node" where
  "bandNode = (\<lambda>(levelIndex, ids).
     fold (moveNode (\<lambda>i. - ((real (length ids) - 1) * 150) / 2 + real i * 150)
                    (\<lambda>i. real levelIndex * 100))
          (enumerate 0 ids))"

definition ringNode :: "float_ops \<Rightarrow> nat \<times> jsstring list \<Rightarrow> node \<Rightarrow> node" where
  "ringNode fl = (\<lambda>(levelIndex, ids).
     fold (moveNode
             (\<lambda>i. js_mul fl (real levelIndex * 200)
                    (fl_cos fl (fl_div fl (js_mul fl (js_mul fl 2 (fl_pi fl)) (real i))
                                   (real (length ids)))))
             (\<lambda>i. js_mul fl (real levelIndex * 200)
                    (fl_sin fl (fl_div fl (js_mul fl (js_mul fl 2 (fl_pi fl)) (real i))
                                   (real (length ids))))))
          (enumerate 0 ids))"

text \<open>The two passes over \<^verbatim>\<open>data.nodes\<close>, before any layout.\<close>

definition sectionIdMapOf :: "raw_node list \<Rightarrow> (jsstring \<rightharpoonup> nat)" where
  "sectionIdMapOf ns = snd (collectSections ns (0, Map.empty))"

definition nodePass :: "raw_node list \<Rightarrow> graph" where
  "nodePass ns = addNodes (sectionIdMapOf ns) ns emptyGraph"

text \<open>The level index that C2 promises a category: its rank among the categories that
  have a node.\<close>

definition consecutiveLevel :: "graph \<Rightarrow> jsstring \<Rightarrow> nat" where
  "consecutiveLevel g t =
     length (filter (\<lambda>u. \<exists>n\<in>set (nodes g). nodeType n = Some u)
               (takeWhile (\<lambda>u. u \<noteq> t) typeOrder))"

text \<open>The keys of the nodes of the category at index \<open>L\<close> of \<open>typeOrder\<close>, in insertion
  order: node \<open>i\<close> of the category is the node whose key is element \<open>i\<close> of this list.\<close>

definition categoryKeys :: "graph \<Rightarrow> nat \<Rightarrow> jsstring list" where
  "categoryKeys g L = map n_key (filter (\<lambda>a. nodeType a = Some (typeOrder ! L)) (nodes g))"

text \<open>The distinct elements of a list, in the order of their first appearance.\<close>

fun firstOccurrences :: "'a list \<Rightarrow> 'a list" where
  "firstOccurrences [] = []"
| "firstOccurrences (x # xs) = x # firstOccurrences (filter (\<lambda>y. y \<noteq> x) xs)"

text \<open>The ids of the Section records, and the order in which C7 numbers them.\<close>

definition sectionIds :: "raw_node list \<Rightarrow> jsstring list" where
  "sectionIds ns =
     map (\<lambda>r. String_of (node_id r)) (filter (\<lambda>r. node_type r = Some (js ''Section'')) ns)"

definition sectionOrder :: "raw_node list \<Rightarrow> jsstring list" where
  "sectionOrder ns = firstOccurrences (sectionIds ns)"

text \<open>No Section record has an id that a record of another type used first: the first
  record with the id of a Section record is a Section record.\<close>

definition noShadowedSection :: "raw_node list \<Rightarrow> bool" where
  "noShadowedSection ns \<longleftrightarrow>
     (\<forall>r\<in>set ns. node_type r = Some (js ''Section'') \<longrightarrow>
        (\<exists>q. find (\<lambda>q. String_of (node_id q) = String_of (node_id r)) ns = Some q
           \<and> node_type q = Some (js ''Section'')))"

text \<open>The trimmed source and target of a record that passes the structural checks of
  the edge loop (an object, truthy source and target, both non-empty after trimming).\<close>

fun edgeEndpoints :: "edge_json \<Rightarrow> (jsstring \<times> jsstring) option" where
  "edgeEndpoints NotAnObject = None"
| "edgeEndpoints (EdgeObject r) =
     (if truthy (edge_source r) \<and> truthy (edge_target r)
         \<and> trim (String_of (edge_source r)) \<noteq> [] \<and> trim (String_of (edge_target r)) \<noteq> []
      then Some (trim (String_of (edge_source r)), trim (String_of (edge_target r)))
      else None)"

text \<open>All the checks of the loop body, in its order; \<open>accepted\<close> says that the body
  added an edge to the graph.\<close>

fun passesAllChecks :: "nat \<times> edge_json \<Rightarrow> edge_state \<Rightarrow> bool" where
  "passesAllChecks (index, NotAnObject) st = False"
| "passesAllChecks (index, EdgeObject r) st =
     (truthy (edge_source r) \<and> truthy (edge_target r)
      \<and> trim (String_of (edge_source r)) \<noteq> [] \<and> trim (String_of (edge_target r)) \<noteq> []
      \<and> edgeKey (trim (String_of (edge_source r))) (trim (String_of (edge_target r))) \<notin> addedEdges st
      \<and> hasNode (es_graph st) (trim (String_of (edge_source r)))
      \<and> hasNode (es_graph st) (trim (String_of (edge_target r)))
      \<and> (case edgeId r (trim (String_of (edge_source r))) (trim (String_of (edge_target r))) index of
            JString eid \<Rightarrow> eid \<noteq> [] \<and> eid \<notin> set (map e_key (edges (es_graph st)))
          | _ \<Rightarrow> False))"

definition accepted :: "float_ops \<Rightarrow> bool \<Rightarrow> nat \<times> edge_json \<Rightarrow> edge_state \<Rightarrow> bool" where
  "accepted fl isDenseGraph p st =
     (length (edges (es_graph (processEdge fl isDenseGraph p st))) = Suc (length (edges (es_graph st))))"

text \<open>The state of the edge loop after the first \<open>i\<close> records of \<^verbatim>\<open>data.edges\<close>.\<close>

definition edgeLoop :: "float_ops \<Rightarrow> bool \<Rightarrow> edge_json list \<Rightarrow> nat \<Rightarrow> graph \<Rightarrow> edge_state" where
  "edgeLoop fl isDenseGraph es i g =
     fold (processEdge fl isDenseGraph) (enumerate 0 (take i es))
       \<lparr>es_graph = g, addedEdges = {}, duplicateCount = 0\<rparr>"

text \<open>Record \<open>i\<close> of \<^verbatim>\<open>data.edges\<close> is accepted and \<open>e\<close> is the edge it appends to the graph.\<close>

definition acceptedAs :: "float_ops \<Rightarrow> bool \<Rightarrow> edge_json list \<Rightarrow> graph \<Rightarrow> nat \<Rightarrow> edge \<Rightarrow> bool" where
  "acceptedAs fl isDenseGraph es g i e \<longleftrightarrow>
     i < length es
     \<and> accepted fl isDenseGraph (i, es ! i) (edgeLoop fl isDenseGraph es i g)
     \<and> edges (es_graph (edgeLoop fl isDenseGraph es (Suc i) g)) =
         edges (es_graph (edgeLoop fl isDenseGraph es i g)) @ [e]"

definition pairKey :: "edge \<Rightarrow> jsstring" where
  "pairKey e = edgeKey (e_source e) (e_target e)"

definition loopInv :: "edge_state \<Rightarrow> bool" where
  "loopInv st \<longleftrightarrow>
     addedEdges st = pairKey ` set (edges (es_graph st))
     \<and> distinct (map pairKey (edges (es_graph st)))"

text \<open>The five checks that C4 lists, in its words: a well-formed structure, source and
  target present, both non-empty after trimming, the ordered pair not accepted before,
  both naming existing nodes.\<close>

definition listedEdgeChecks :: "graph \<Rightarrow> (jsstring \<times> jsstring) list \<Rightarrow> edge_json \<Rightarrow> bool" where
  "listedEdgeChecks g acceptedPairs ej =
     (case ej of
        NotAnObject \<Rightarrow> False
      | EdgeObject r \<Rightarrow>
          edge_source r \<noteq> JUndefined \<and> edge_source r \<noteq> JNull
          \<and> edge_target r \<noteq> JUndefined \<and> edge_target r \<noteq> JNull
          \<and> trim (String_of (edge_source r)) \<noteq> [] \<and> trim (String_of (edge_target r)) \<noteq> []
          \<and> (trim (String_of (edge_source r)), trim (String_of (edge_target r))) \<notin> set acceptedPairs
          \<and> hasNode g (trim (String_of (edge_source r)))
          \<and> hasNode g (trim (String_of (edge_target r))))"

section \<open>Concrete inputs\<close>

definition emptyData :: raw_data where
  "emptyData = \<lparr>data_nodes = Some [], data_edges = Some []\<rparr>"

definition placeholderGraph :: graph where
  "placeholderGraph = \<lparr>nodes = [placeholderNode], edges = []\<rparr>"

text \<open>Exact real arithmetic in the place of the double operations, for evaluating the
  build on inputs where the sizes and positions so computed are the ones that the double
  operations give: the product of 5 and the double nearest to 0.8 rounds to 4, the angle
  of node 0 of a ring is 0, with cosine 1 and sine 0, and a product with 0 or 1 is exact.\<close>

definition exactOps :: float_ops where
  "exactOps = \<lparr>fl_mul = (*), fl_div = (/), fl_cos = cos, fl_sin = sin, fl_pi = pi\<rparr>"

text \<open>Stand-ins for the two ForceAtlas2 entry points, for evaluating the build on concrete
  inputs: no base settings, and a layout that leaves every node at the origin.\<close>

definition noSettings :: "graph \<Rightarrow> unit" where
  "noSettings g = ()"

definition originLayout :: "unit fa2_params \<Rightarrow> graph \<Rightarrow> jsstring \<Rightarrow> real \<times> real" where
  "originLayout p g k = (0, 0)"

definition rawNode :: "jsval \<Rightarrow> jsstring option \<Rightarrow> raw_node" where
  "rawNode i t =
     \<lparr>node_id = i, node_type = t, node_label = None, node_size = None, node_color = None,
      node_properties = None\<rparr>"

definition plainNode :: "jsstring \<Rightarrow> jsstring option \<Rightarrow> real \<Rightarrow> real \<Rightarrow> real \<Rightarrow> node" where
  "plainNode k t s px py =
     \<lparr>n_key = k, n_label = k, n_size = s, n_color = js ''#64748b'', nodeType = t,
      n_properties = Some [], n_x = px, n_y = py\<rparr>"

definition wordOnlyGraph :: graph where
  "wordOnlyGraph = \<lparr>nodes = [plainNode (js ''w1'') (Some (js ''Word'')) 10 0 0], edges = []\<rparr>"



definition constructorData :: raw_data where
  "constructorData =
     \<lparr>data_nodes = Some [rawNode (JString (js ''n1'')) (Some (js ''constructor''))],
      data_edges = Some []\<rparr>"

definition emptyIdData :: raw_data where
  "emptyIdData = \<lparr>data_nodes = Some [rawNode (JString []) None], data_edges = Some []\<rparr>"

definition duplicateIdData :: raw_data where
  "duplicateIdData =
     \<lparr>data_nodes = Some
        [(rawNode (JString (js ''a'')) (Some (js ''Word'')))\<lparr>node_label := Some (js ''first'')\<rparr>,
         (rawNode (JString (js ''a'')) (Some (js ''Text'')))\<lparr>node_label := Some (js ''second'')\<rparr>,
         rawNode (JNumber 7) None],
      data_edges = None\<rparr>"

definition sectionOrderData :: raw_data where
  "sectionOrderData =
     \<lparr>data_nodes = Some
        [(rawNode (JString (js ''s3'')) (Some (js ''Section'')))\<lparr>node_label := Some (js ''Intro'')\<rparr>,
         rawNode (JString (js ''s1'')) (Some (js ''Section'')),
         rawNode (JString (js ''s3'')) (Some (js ''Section'')),
         rawNode (JString (js ''s2'')) (Some (js ''Section''))],
      data_edges = None\<rparr>"

definition emptyLabelData :: raw_data where
  "emptyLabelData =
     \<lparr>data_nodes = Some [(rawNode (JString (js ''w'')) (Some (js ''Word'')))\<lparr>node_label := Some []\<rparr>],
      data_edges = None\<rparr>"

definition shadowedSectionData :: raw_data where
  "shadowedSectionData =
     \<lparr>data_nodes = Some
        [rawNode (JString (js ''x'')) (Some (js ''Word'')),
         rawNode (JString (js ''x'')) (Some (js ''Section'')),
         rawNode (JString (js ''y'')) (Some (js ''Section''))],
      data_edges = None\<rparr>"

definition rawEdge :: "jsval \<Rightarrow> jsval \<Rightarrow> jsval \<Rightarrow> raw_edge" where
  "rawEdge i s t =
     \<lparr>edge_id = i, edge_source = s, edge_target = t, edge_type = None, edge_size = None,
      edge_color = None\<rparr>"

definition plainEdge :: "jsstring \<Rightarrow> jsstring \<Rightarrow> jsstring \<Rightarrow> real \<Rightarrow> edge" where
  "plainEdge k s t z =
     \<lparr>e_key = k, e_source = s, e_target = t, e_size = z, e_color = js ''#60a5faDD'',
      e_type = js ''line'', relationshipType = []\<rparr>"

definition twoNodes :: graph where
  "twoNodes = \<lparr>nodes = [plainNode (js ''a'') None 10 0 0, plainNode (js ''b'') None 10 0 0], edges = []\<rparr>"

definition exampleEdges :: "edge_json list" where
  "exampleEdges =
     [NotAnObject,
      EdgeObject (rawEdge JUndefined (JString (js '' a'')) (JString (js ''b''))),
      EdgeObject ((rawEdge (JString (js ''x1'')) (JString (js ''a'')) (JString (js ''b '')))
                    \<lparr>edge_type := Some (js ''PART_OF'')\<rparr>),
      EdgeObject (rawEdge (JNumber 7) (JString (js ''b'')) (JString (js ''a''))),
      EdgeObject (rawEdge JUndefined (JString (js ''a'')) (JString (js ''zzz'')))]"

definition numericEdgeIdData :: raw_data where
  "numericEdgeIdData =
     \<lparr>data_nodes = Some [rawNode (JString (js ''a'')) None, rawNode (JString (js ''b'')) None],
      data_edges = Some [EdgeObject (rawEdge (JNumber 7) (JString (js ''a'')) (JString (js ''b'')))]\<rparr>"

definition danglingTwiceData :: raw_data where
  "danglingTwiceData =
     \<lparr>data_nodes = Some [rawNode (JString (js ''a'')) None],
      data_edges = Some [EdgeObject (rawEdge JUndefined (JString (js ''a'')) (JString (js ''zzz''))),
                         EdgeObject (rawEdge JUndefined (JString (js ''a'')) (JString (js ''zzz'')))]\<rparr>"

definition zeroSizeData :: raw_data where
  "zeroSizeData =
     \<lparr>data_nodes = Some [rawNode (JString (js ''a'')) None, rawNode (JString (js ''b'')) None],
      data_edges = Some [EdgeObject ((rawEdge JUndefined (JString (js ''a'')) (JString (js ''b'')))
                                       \<lparr>edge_size := Some 0\<rparr>)]\<rparr>"

definition denseData :: raw_data where
  "denseData =
     \<lparr>data_nodes = Some (rawNode (JString (js ''a'')) None # rawNode (JString (js ''b'')) None
                           # replicate 199 (rawNode (JString (js ''b'')) None)),
      data_edges = Some [EdgeObject ((rawEdge JUndefined (JString (js ''a'')) (JString (js ''b'')))
                                       \<lparr>edge_size := Some 5\<rparr>)]\<rparr>"

section \<open>The layouts, node by node\<close>

lemma moveNode_key [simp]: "n_key (moveNode X Y p n) = n_key n"
  by (cases p) (simp add: moveNode_def)

lemma fold_moveNode_key [simp]: "n_key (fold (moveNode X Y) ops n) = n_key n"
  by (induction ops arbitrary: n) simp_all

lemma fold_moveNode_other:
  "n_key n \<notin> set ids \<Longrightarrow> fold (moveNode X Y) (enumerate s ids) n = n"
  by (induction ids arbitrary: s n) (simp_all add: moveNode_def)

lemma fold_moveNode_hit:
  "distinct ids \<Longrightarrow> i < length ids \<Longrightarrow> n_key n = ids ! i \<Longrightarrow>
   fold (moveNode X Y) (enumerate s ids) n = n\<lparr>n_x := X (s + i), n_y := Y (s + i)\<rparr>"
proof (induction ids arbitrary: s i n)
  case Nil
  then show ?case by simp
next
  case (Cons k ks)
  show ?case
  proof (cases i)
    case 0
    with Cons.prems have "n_key n = k" and "k \<notin> set ks" by simp_all
    then have "moveNode X Y (s, k) n = n\<lparr>n_x := X s, n_y := Y s\<rparr>"
      by (simp add: moveNode_def)
    moreover have "n_key (n\<lparr>n_x := X s, n_y := Y s\<rparr>) \<notin> set ks"
      using \<open>n_key n = k\<close> \<open>k \<notin> set ks\<close> by simp
    ultimately show ?thesis
      using 0 by (simp add: fold_moveNode_other)
  next
    case (Suc j)
    with Cons.prems have j: "j < length ks" "n_key n = ks ! j" "distinct ks" "k \<notin> set ks"
      by simp_all
    then have "n_key n \<noteq> k" by (metis nth_mem)
    then show ?thesis
      using Cons.IH [OF j(3) j(1) j(2), of "Suc s"] Suc by (simp add: moveNode_def)
  qed
qed

lemma setNodeAttribute_xy_nodes:
  "nodes (setNodeAttribute_y k v (setNodeAttribute_x k u g)) =
     map (\<lambda>n. if n_key n = k then n\<lparr>n_x := u, n_y := v\<rparr> else n) (nodes g)"
  by (simp add: setNodeAttribute_x_def setNodeAttribute_y_def comp_def if_distrib cong: if_cong)

lemma setNodeAttribute_xy_edges:
  "edges (setNodeAttribute_y k v (setNodeAttribute_x k u g)) = edges g"
  by (simp add: setNodeAttribute_x_def setNodeAttribute_y_def)

lemma fold_setNodeAttribute_nodes:
  "nodes (fold (\<lambda>(i, k) g'. setNodeAttribute_y k (Y i) (setNodeAttribute_x k (X i) g')) ops g) =
     map (fold (moveNode X Y) ops) (nodes g)"
proof (induction ops arbitrary: g)
  case Nil
  then show ?case by simp
next
  case (Cons p ops)
  obtain i k where p: "p = (i, k)" by (cases p)
  show ?case
    by (simp add: p Cons.IH setNodeAttribute_xy_nodes moveNode_def comp_def)
qed

lemma fold_setNodeAttribute_edges:
  "edges (fold (\<lambda>(i, k) g'. setNodeAttribute_y k (Y i) (setNodeAttribute_x k (X i) g')) ops g) =
     edges g"
proof (induction ops arbitrary: g)
  case Nil
  then show ?case by simp
next
  case (Cons p ops)
  obtain i k where p: "p = (i, k)" by (cases p)
  show ?case by (simp add: p Cons.IH setNodeAttribute_xy_edges)
qed

lemma placeBand_nodes: "nodes (placeBand lv g) = map (bandNode lv) (nodes g)"
proof -
  obtain L ids where lv: "lv = (L, ids)" by (cases lv)
  show ?thesis
  proof (cases "ids = []")
    case True
    then show ?thesis by (simp add: lv placeBand_def bandNode_def)
  next
    case False
    then have "placeBand lv g =
        fold (\<lambda>(i, k) g'.
                setNodeAttribute_y k (real L * 100)
                  (setNodeAttribute_x k (- ((real (length ids) - 1) * 150) / 2 + real i * 150) g'))
             (enumerate 0 ids) g"
      unfolding lv placeBand_def Let_def by (simp only: split if_False)
    then show ?thesis
      unfolding lv bandNode_def split by (simp only: fold_setNodeAttribute_nodes)
  qed
qed

lemma placeRing_nodes: "nodes (placeRing fl lv g) = map (ringNode fl lv) (nodes g)"
proof -
  obtain L ids where lv: "lv = (L, ids)" by (cases lv)
  show ?thesis
    by (cases "ids = []")
      (simp_all add: lv placeRing_def ringNode_def Let_def fold_setNodeAttribute_nodes)
qed

lemma placeBand_edges: "edges (placeBand lv g) = edges g"
proof -
  obtain L ids where lv: "lv = (L, ids)" by (cases lv)
  show ?thesis
    by (simp add: lv placeBand_def Let_def fold_setNodeAttribute_edges)
qed

lemma placeRing_edges: "edges (placeRing fl lv g) = edges g"
proof -
  obtain L ids where lv: "lv = (L, ids)" by (cases lv)
  show ?thesis
    by (simp add: lv placeRing_def Let_def fold_setNodeAttribute_edges)
qed

lemma fold_placeBand_nodes: "nodes (fold placeBand lvs g) = map (fold bandNode lvs) (nodes g)"
  by (induction lvs arbitrary: g) (simp_all add: placeBand_nodes comp_def)

lemma fold_placeRing_nodes: "nodes (fold (placeRing fl) lvs g) = map (fold (ringNode fl) lvs) (nodes g)"
  by (induction lvs arbitrary: g) (simp_all add: placeRing_nodes comp_def)

lemma fold_placeBand_edges: "edges (fold placeBand lvs g) = edges g"
  by (induction lvs arbitrary: g) (simp_all add: placeBand_edges)

lemma fold_placeRing_edges: "edges (fold (placeRing fl) lvs g) = edges g"
  by (induction lvs arbitrary: g) (simp_all add: placeRing_edges)

lemma nodesOfType_groupNodes:
  "groupNodes ns m0 = Inr m \<Longrightarrow>
   nodesOfType m t = nodesOfType m0 t @ map n_key (filter (\<lambda>n. groupKey n = t) ns)"
proof (induction ns arbitrary: m0)
  case Nil
  then show ?case by simp
next
  case (Cons n ns)
  show ?case
  proof (cases "m0 (groupKey n)")
    case None
    with Cons.prems have r: "groupNodes ns (m0(groupKey n \<mapsto> [n_key n])) = Inr m"
      by (simp split: if_splits)
    show ?thesis
      using Cons.IH [OF r] None by (cases "t = groupKey n") (simp_all add: nodesOfType_def)
  next
    case (Some ids)
    with Cons.prems have r: "groupNodes ns (m0(groupKey n \<mapsto> ids @ [n_key n])) = Inr m"
      by simp
    show ?thesis
      using Cons.IH [OF r] Some by (cases "t = groupKey n") (simp_all add: nodesOfType_def)
  qed
qed

lemma groupNodes_returns:
  "(\<exists>m. groupNodes ns m0 = Inr m) \<longleftrightarrow>
   (\<forall>n\<in>set ns. groupKey n \<in> set objectPrototypeKeys \<longrightarrow> groupKey n \<in> dom m0)"
proof (induction ns arbitrary: m0)
  case Nil
  then show ?case by simp
next
  case (Cons n ns)
  show ?case
  proof (cases "m0 (groupKey n)")
    case None
    show ?thesis
    proof (cases "groupKey n \<in> set objectPrototypeKeys")
      case True
      have "groupNodes (n # ns) m0 = Inl TypeError" using None True by simp
      moreover have "groupKey n \<notin> dom m0" using None by (simp add: domIff)
      ultimately show ?thesis using True by auto
    next
      case False
      have step: "groupNodes (n # ns) m0 = groupNodes ns (m0(groupKey n \<mapsto> [n_key n]))"
        using None False by simp
      have "(\<forall>a\<in>set ns. groupKey a \<in> set objectPrototypeKeys \<longrightarrow>
                groupKey a \<in> dom (m0(groupKey n \<mapsto> [n_key n]))) \<longleftrightarrow>
            (\<forall>a\<in>set (n # ns). groupKey a \<in> set objectPrototypeKeys \<longrightarrow> groupKey a \<in> dom m0)"
        using False by (simp only: dom_fun_upd option.simps list.set if_False) (metis insert_iff)
      then show ?thesis unfolding step Cons.IH .
    qed
  next
    case (Some ids)
    have step: "groupNodes (n # ns) m0 = groupNodes ns (m0(groupKey n \<mapsto> ids @ [n_key n]))"
      using Some by simp
    have "groupKey n \<in> dom m0" using Some by (simp add: domIff)
    then have "(\<forall>a\<in>set ns. groupKey a \<in> set objectPrototypeKeys \<longrightarrow>
                groupKey a \<in> dom (m0(groupKey n \<mapsto> ids @ [n_key n]))) \<longleftrightarrow>
            (\<forall>a\<in>set (n # ns). groupKey a \<in> set objectPrototypeKeys \<longrightarrow> groupKey a \<in> dom m0)"
      by (simp only: dom_fun_upd option.simps list.set if_False) (metis insert_iff)
    then show ?thesis unfolding step Cons.IH .
  qed
qed

lemma fold_level_other:
  assumes other: "\<And>lv n. n_key n \<notin> set (snd lv) \<Longrightarrow> f lv n = n"
  shows "(\<forall>lv\<in>set lvs. n_key n \<notin> set (snd lv)) \<Longrightarrow> fold f lvs n = n"
  by (induction lvs) (simp_all add: other)

lemma fold_level_hit:
  assumes other: "\<And>lv n. n_key n \<notin> set (snd lv) \<Longrightarrow> f lv n = n"
    and key: "\<And>lv n. n_key (f lv n) = n_key n"
    and j: "j < length lvs"
    and rest: "\<And>j'. j' < length lvs \<Longrightarrow> j' \<noteq> j \<Longrightarrow> n_key n \<notin> set (snd (lvs ! j'))"
  shows "fold f lvs n = f (lvs ! j) n"
proof -
  have split: "lvs = take j lvs @ lvs ! j # drop (Suc j) lvs"
    using j by (rule id_take_nth_drop)
  have pre: "\<forall>lv\<in>set (take j lvs). n_key n \<notin> set (snd lv)"
  proof
    fix lv assume "lv \<in> set (take j lvs)"
    then obtain a where "a < length (take j lvs)" "lv = take j lvs ! a"
      by (auto simp: in_set_conv_nth)
    then have "a < length lvs" "a \<noteq> j" "lv = lvs ! a" using j by simp_all
    then show "n_key n \<notin> set (snd lv)" using rest by simp
  qed
  have post: "\<forall>lv\<in>set (drop (Suc j) lvs). n_key (f (lvs ! j) n) \<notin> set (snd lv)"
  proof
    fix lv assume "lv \<in> set (drop (Suc j) lvs)"
    then obtain a where "a < length (drop (Suc j) lvs)" "lv = drop (Suc j) lvs ! a"
      by (auto simp: in_set_conv_nth)
    then have "Suc j + a < length lvs" "Suc j + a \<noteq> j" "lv = lvs ! (Suc j + a)"
      using j by simp_all
    then show "n_key (f (lvs ! j) n) \<notin> set (snd lv)" using rest key by simp
  qed
  have "fold f lvs n = fold f (drop (Suc j) lvs) (f (lvs ! j) (fold f (take j lvs) n))"
    by (subst split) simp
  also have "fold f (take j lvs) n = n"
    by (rule fold_level_other [OF other pre])
  also have "fold f (drop (Suc j) lvs) (f (lvs ! j) n) = f (lvs ! j) n"
    by (rule fold_level_other [OF other post])
  finally show ?thesis .
qed

lemma bandNode_key [simp]: "n_key (bandNode lv n) = n_key n"
  by (cases lv) (simp add: bandNode_def)

lemma ringNode_key [simp]: "n_key (ringNode fl lv n) = n_key n"
  by (cases lv) (simp add: ringNode_def)

lemma bandNode_other: "n_key n \<notin> set (snd lv) \<Longrightarrow> bandNode lv n = n"
  by (cases lv) (simp add: bandNode_def fold_moveNode_other)

lemma ringNode_other: "n_key n \<notin> set (snd lv) \<Longrightarrow> ringNode fl lv n = n"
  by (cases lv) (simp add: ringNode_def fold_moveNode_other)

lemma distinct_typeOrder: "distinct typeOrder"
  by (simp add: typeOrder_def js_def)

lemma length_typeOrder [simp]: "length typeOrder = 6"
  by (simp add: typeOrder_def)

lemma groupKey_typeOrder:
  "t \<in> set typeOrder \<Longrightarrow> groupKey n = t \<longleftrightarrow> nodeType n = Some t"
  by (cases "nodeType n") (auto simp: groupKey_def typeOrder_def js_def)

text \<open>With distinct node keys, a node's key occurs in the group of its own type only.\<close>

lemma key_in_group:
  assumes d: "distinct (map n_key ns)" and n: "n \<in> set ns"
  shows "n_key n \<in> set (map n_key (filter (\<lambda>a. groupKey a = t) ns)) \<longleftrightarrow> groupKey n = t"
proof
  assume "n_key n \<in> set (map n_key (filter (\<lambda>a. groupKey a = t) ns))"
  then obtain a where a: "a \<in> set ns" "groupKey a = t" "n_key a = n_key n" by auto
  from d have "inj_on n_key (set ns)" by (simp add: distinct_map)
  with a n have "a = n" by (auto dest: inj_onD)
  with a show "groupKey n = t" by simp
next
  assume "groupKey n = t"
  with n show "n_key n \<in> set (map n_key (filter (\<lambda>a. groupKey a = t) ns))" by auto
qed

lemma levels_nth:
  "j < 6 \<Longrightarrow> enumerate 0 (map (nodesOfType m) typeOrder) ! j = (j, nodesOfType m (typeOrder ! j))"
  by (simp add: nth_enumerate_eq)

lemma layout_node_unplaced:
  assumes other: "\<And>lv n. n_key n \<notin> set (snd lv) \<Longrightarrow> f lv n = n"
    and grp: "groupNodes ns Map.empty = Inr m"
    and d: "distinct (map n_key ns)"
    and n: "n \<in> set ns"
    and t: "groupKey n \<notin> set typeOrder"
  shows "fold f (enumerate 0 (map (nodesOfType m) typeOrder)) n = n"
proof (rule fold_level_other [OF other])
  show "\<forall>lv\<in>set (enumerate 0 (map (nodesOfType m) typeOrder)). n_key n \<notin> set (snd lv)"
  proof
    fix lv assume "lv \<in> set (enumerate 0 (map (nodesOfType m) typeOrder))"
    then obtain j where j: "j < 6" "lv = (j, nodesOfType m (typeOrder ! j))"
      by (auto simp: in_set_enumerate_eq)
    have "nodesOfType m (typeOrder ! j) =
        map n_key (filter (\<lambda>a. groupKey a = typeOrder ! j) ns)"
      using nodesOfType_groupNodes [OF grp] by (simp add: nodesOfType_def)
    moreover have "groupKey n \<noteq> typeOrder ! j"
      using t j(1) by (metis length_typeOrder nth_mem)
    ultimately show "n_key n \<notin> set (snd lv)"
      using key_in_group [OF d n] j(2) by simp
  qed
qed

lemma layout_node_placed:
  assumes other: "\<And>lv n. n_key n \<notin> set (snd lv) \<Longrightarrow> f lv n = n"
    and key: "\<And>lv n. n_key (f lv n) = n_key n"
    and grp: "groupNodes ns Map.empty = Inr m"
    and d: "distinct (map n_key ns)"
    and n: "n \<in> set ns"
    and L: "L < 6"
    and t: "groupKey n = typeOrder ! L"
  shows "fold f (enumerate 0 (map (nodesOfType m) typeOrder)) n =
         f (L, map n_key (filter (\<lambda>a. groupKey a = typeOrder ! L) ns)) n"
proof -
  let ?lvs = "enumerate 0 (map (nodesOfType m) typeOrder)"
  have grp_eq: "nodesOfType m u = map n_key (filter (\<lambda>a. groupKey a = u) ns)" for u
    using nodesOfType_groupNodes [OF grp] by (simp add: nodesOfType_def)
  have "fold f ?lvs n = f (?lvs ! L) n"
  proof (rule fold_level_hit [OF other key])
    show "L < length ?lvs" using L by simp
  next
    fix j' assume j': "j' < length ?lvs" "j' \<noteq> L"
    then have "j' < 6" by simp
    then have "typeOrder ! j' \<noteq> typeOrder ! L"
      using j'(2) L distinct_typeOrder by (simp add: nth_eq_iff_index_eq)
    then show "n_key n \<notin> set (snd (?lvs ! j'))"
      using key_in_group [OF d n] t \<open>j' < 6\<close> by (simp add: levels_nth grp_eq)
  qed
  then show ?thesis using L by (simp add: levels_nth grp_eq)
qed

lemma withoutPosition_moveNode [simp]: "withoutPosition (moveNode X Y p n) = withoutPosition n"
  by (cases p) (simp add: moveNode_def withoutPosition_def)

lemma withoutPosition_fold_moveNode [simp]:
  "withoutPosition (fold (moveNode X Y) ops n) = withoutPosition n"
  by (induction ops arbitrary: n) simp_all

lemma withoutPosition_bandNode [simp]: "withoutPosition (bandNode lv n) = withoutPosition n"
  by (cases lv) (simp add: bandNode_def)

lemma withoutPosition_ringNode [simp]: "withoutPosition (ringNode fl lv n) = withoutPosition n"
  by (cases lv) (simp add: ringNode_def)

lemma withoutPosition_fold_bandNode [simp]:
  "withoutPosition (fold bandNode lvs n) = withoutPosition n"
  by (induction lvs arbitrary: n) simp_all

lemma withoutPosition_fold_ringNode [simp]:
  "withoutPosition (fold (ringNode fl) lvs n) = withoutPosition n"
  by (induction lvs arbitrary: n) simp_all

lemma withoutPosition_fields:
  "withoutPosition a = withoutPosition b \<Longrightarrow>
   n_key a = n_key b \<and> n_label a = n_label b \<and> n_size a = n_size b \<and> n_color a = n_color b
   \<and> nodeType a = nodeType b \<and> n_properties a = n_properties b"
  by (cases a, cases b) (simp add: withoutPosition_def)

lemma applyWordLayout_Inr:
  "applyWordLayout g = Inr g' \<Longrightarrow>
   \<exists>m. groupNodes (nodes g) Map.empty = Inr m
     \<and> nodes g' = map (fold bandNode (enumerate 0 (map (nodesOfType m) typeOrder))) (nodes g)
     \<and> edges g' = edges g"
  by (auto simp: applyWordLayout_def fold_placeBand_nodes fold_placeBand_edges split: sum.splits)

lemma applyRadialLayout_Inr:
  "applyRadialLayout fl g = Inr g' \<Longrightarrow>
   \<exists>m. groupNodes (nodes g) Map.empty = Inr m
     \<and> nodes g' = map (fold (ringNode fl) (enumerate 0 (map (nodesOfType m) typeOrder))) (nodes g)
     \<and> edges g' = edges g"
  by (auto simp: applyRadialLayout_def fold_placeRing_nodes fold_placeRing_edges split: sum.splits)

lemma applyWordLayout_returns:
  "(\<exists>g'. applyWordLayout g = Inr g') \<longleftrightarrow>
   (\<forall>n\<in>set (nodes g). groupKey n \<notin> set objectPrototypeKeys)"
  using groupNodes_returns [of "nodes g" Map.empty]
  by (auto simp: applyWordLayout_def split: sum.splits)

lemma applyRadialLayout_returns:
  "(\<exists>g'. applyRadialLayout fl g = Inr g') \<longleftrightarrow>
   (\<forall>n\<in>set (nodes g). groupKey n \<notin> set objectPrototypeKeys)"
  using groupNodes_returns [of "nodes g" Map.empty]
  by (auto simp: applyRadialLayout_def split: sum.splits)

lemma applyWordLayout_frame:
  "applyWordLayout g = Inr g' \<Longrightarrow>
   map withoutPosition (nodes g') = map withoutPosition (nodes g) \<and> edges g' = edges g"
  by (auto dest!: applyWordLayout_Inr)

lemma applyRadialLayout_frame:
  "applyRadialLayout fl g = Inr g' \<Longrightarrow>
   map withoutPosition (nodes g') = map withoutPosition (nodes g) \<and> edges g' = edges g"
  by (auto dest!: applyRadialLayout_Inr)

text \<open>The position that a layout gives to node \<open>i\<close> of the category at index \<open>L\<close>.\<close>

lemma category_group:
  "L < 6 \<Longrightarrow>
   filter (\<lambda>a. groupKey a = typeOrder ! L) ns = filter (\<lambda>a. nodeType a = Some (typeOrder ! L)) ns"
  by (rule filter_cong) (simp_all add: groupKey_typeOrder)

lemma placed_node:
  assumes other: "\<And>lv n. n_key n \<notin> set (snd lv) \<Longrightarrow> f lv n = n"
    and key: "\<And>lv n. n_key (f lv n) = n_key n"
    and grp: "groupNodes ns Map.empty = Inr m"
    and d: "distinct (map n_key ns)"
    and L: "L < 6"
    and ids: "ids = map n_key (filter (\<lambda>a. nodeType a = Some (typeOrder ! L)) ns)"
    and i: "i < length ids"
    and n': "n' \<in> set (map (fold f (enumerate 0 (map (nodesOfType m) typeOrder))) ns)"
    and k: "n_key n' = ids ! i"
  shows "\<exists>n\<in>set ns. n_key n = ids ! i \<and> nodeType n = Some (typeOrder ! L) \<and> distinct ids
           \<and> n' = f (L, ids) n"
proof -
  let ?lvs = "enumerate 0 (map (nodesOfType m) typeOrder)"
  from n' obtain n where n: "n \<in> set ns" "n' = fold f ?lvs n" by auto
  have fold_key: "n_key (fold f lvs a) = n_key a" for lvs a
    by (induction lvs arbitrary: a) (simp_all add: key)
  have kn: "n_key n = ids ! i" using k n(2) by (simp add: fold_key)
  have ids': "ids = map n_key (filter (\<lambda>a. groupKey a = typeOrder ! L) ns)"
    using ids L by (simp add: category_group)
  have "n_key n \<in> set ids" using kn i by simp
  then have gk: "groupKey n = typeOrder ! L"
    using key_in_group [OF d n(1)] ids' by simp
  then have ty: "nodeType n = Some (typeOrder ! L)"
    using L by (simp add: groupKey_typeOrder)
  have dist: "distinct ids"
    unfolding ids using d by (simp add: distinct_map_filter)
  have "fold f ?lvs n = f (L, ids) n"
    using layout_node_placed [OF other key grp d n(1) L gk] ids' by simp
  then show ?thesis using n kn ty dist by auto
qed

section \<open>Positions assigned by the layouts\<close>

lemma banded_position:
  assumes lay: "applyWordLayout g = Inr g'"
    and d: "distinct (map n_key (nodes g))"
    and L: "L < length typeOrder"
    and ids: "ids = map n_key (filter (\<lambda>a. nodeType a = Some (typeOrder ! L)) (nodes g))"
    and i: "i < length ids"
    and n': "n' \<in> set (nodes g')"
    and k: "n_key n' = ids ! i"
  shows "n_x n' = - ((real (length ids) - 1) * 150) / 2 + real i * 150
       \<and> n_y n' = real L * 100"
proof -
  from applyWordLayout_Inr [OF lay] obtain m where
    m: "groupNodes (nodes g) Map.empty = Inr m"
      "nodes g' = map (fold bandNode (enumerate 0 (map (nodesOfType m) typeOrder))) (nodes g)"
    by blast
  have L6: "L < 6" using L by simp
  have mem: "n' \<in> set (map (fold bandNode (enumerate 0 (map (nodesOfType m) typeOrder))) (nodes g))"
    using n' m(2) by simp
  from placed_node [where f = bandNode, OF bandNode_other bandNode_key m(1) d L6 ids i mem k]
  obtain n where n: "n_key n = ids ! i" "distinct ids" "n' = bandNode (L, ids) n"
    by blast
  have "n' = n\<lparr>n_x := - ((real (length ids) - 1) * 150) / 2 + real i * 150,
               n_y := real L * 100\<rparr>"
    using fold_moveNode_hit [OF n(2) i n(1), of _ _ 0] n(3) by (simp add: bandNode_def)
  then show ?thesis by simp
qed

lemma ring_position:
  assumes lay: "applyRadialLayout fl g = Inr g'"
    and d: "distinct (map n_key (nodes g))"
    and L: "L < length typeOrder"
    and ids: "ids = map n_key (filter (\<lambda>a. nodeType a = Some (typeOrder ! L)) (nodes g))"
    and i: "i < length ids"
    and n': "n' \<in> set (nodes g')"
    and k: "n_key n' = ids ! i"
  shows "n_x n' = js_mul fl (real L * 200)
                    (fl_cos fl (fl_div fl (js_mul fl (js_mul fl 2 (fl_pi fl)) (real i))
                                   (real (length ids))))
       \<and> n_y n' = js_mul fl (real L * 200)
                    (fl_sin fl (fl_div fl (js_mul fl (js_mul fl 2 (fl_pi fl)) (real i))
                                   (real (length ids))))"
proof -
  from applyRadialLayout_Inr [OF lay] obtain m where
    m: "groupNodes (nodes g) Map.empty = Inr m"
      "nodes g' = map (fold (ringNode fl) (enumerate 0 (map (nodesOfType m) typeOrder))) (nodes g)"
    by blast
  have L6: "L < 6" using L by simp
  have mem: "n' \<in> set (map (fold (ringNode fl) (enumerate 0 (map (nodesOfType m) typeOrder))) (nodes g))"
    using n' m(2) by simp
  from placed_node [where f = "ringNode fl", OF ringNode_other ringNode_key m(1) d L6 ids i mem k]
  obtain n where n: "n_key n = ids ! i" "distinct ids" "n' = ringNode fl (L, ids) n"
    by blast
  have "n' = n\<lparr>n_x := js_mul fl (real L * 200)
                    (fl_cos fl (fl_div fl (js_mul fl (js_mul fl 2 (fl_pi fl)) (real i))
                                   (real (length ids)))),
               n_y := js_mul fl (real L * 200)
                    (fl_sin fl (fl_div fl (js_mul fl (js_mul fl 2 (fl_pi fl)) (real i))
                                   (real (length ids))))\<rparr>"
    using fold_moveNode_hit [OF n(2) i n(1), of _ _ 0] n(3) by (simp add: ringNode_def)
  then show ?thesis by simp
qed


text \<open>A node of the laid-out graph has an index within its category.\<close>

lemma index_in_category:
  assumes frame: "map withoutPosition (nodes g') = map withoutPosition (nodes g)"
    and n': "n' \<in> set (nodes g')"
    and ty: "nodeType n' = Some t"
  shows "\<exists>i < length (map n_key (filter (\<lambda>a. nodeType a = Some t) (nodes g))).
           n_key n' = map n_key (filter (\<lambda>a. nodeType a = Some t) (nodes g)) ! i"
proof -
  from n' have "withoutPosition n' \<in> set (map withoutPosition (nodes g))"
    unfolding frame [symmetric] by simp
  then obtain n where n: "n \<in> set (nodes g)" "withoutPosition n = withoutPosition n'"
    by auto
  from withoutPosition_fields [OF n(2)] ty have "n_key n = n_key n'" "nodeType n = Some t"
    by simp_all
  with n(1) have "n \<in> set (filter (\<lambda>a. nodeType a = Some t) (nodes g))" by simp
  then have "n_key n \<in> n_key ` set (filter (\<lambda>a. nodeType a = Some t) (nodes g))"
    by (rule imageI)
  then have "n_key n' \<in> set (map n_key (filter (\<lambda>a. nodeType a = Some t) (nodes g)))"
    using \<open>n_key n = n_key n'\<close> by simp
  then obtain i where "i < length (map n_key (filter (\<lambda>a. nodeType a = Some t) (nodes g)))"
    "map n_key (filter (\<lambda>a. nodeType a = Some t) (nodes g)) ! i = n_key n'"
    unfolding in_set_conv_nth by blast
  then show ?thesis by metis
qed

lemma unplaced_node:
  assumes grp: "groupNodes (nodes g) Map.empty = Inr m"
    and other: "\<And>lv n. n_key n \<notin> set (snd lv) \<Longrightarrow> f lv n = n"
    and d: "distinct (map n_key (nodes g))"
    and n: "n \<in> set (nodes g)"
    and ty: "nodeType n \<notin> Some ` set typeOrder"
  shows "fold f (enumerate 0 (map (nodesOfType m) typeOrder)) n = n"
proof -
  have "groupKey n \<notin> set typeOrder"
  proof
    assume "groupKey n \<in> set typeOrder"
    then have "nodeType n = Some (groupKey n)" using groupKey_typeOrder by blast
    with \<open>groupKey n \<in> set typeOrder\<close> ty show False by auto
  qed
  then show ?thesis
    using layout_node_unplaced [where f = f, OF other grp d n] by simp
qed

lemma layout_leaves_other_types:
  assumes lay: "applyWordLayout g = Inr g' \<or> applyRadialLayout fl g = Inr g'"
    and d: "distinct (map n_key (nodes g))"
    and n': "n' \<in> set (nodes g')"
    and ty: "nodeType n' \<notin> Some ` set typeOrder"
  shows "n' \<in> set (nodes g)"
proof -
  from lay consider
    (band) m where "groupNodes (nodes g) Map.empty = Inr m"
      "nodes g' = map (fold bandNode (enumerate 0 (map (nodesOfType m) typeOrder))) (nodes g)"
    | (ring) m where "groupNodes (nodes g) Map.empty = Inr m"
      "nodes g' = map (fold (ringNode fl) (enumerate 0 (map (nodesOfType m) typeOrder))) (nodes g)"
    using applyWordLayout_Inr applyRadialLayout_Inr by blast
  then show ?thesis
  proof cases
    case band
    from n' band(2) obtain n where n: "n \<in> set (nodes g)"
      "n' = fold bandNode (enumerate 0 (map (nodesOfType m) typeOrder)) n" by auto
    have "withoutPosition n' = withoutPosition n" using n(2) by simp
    from withoutPosition_fields [OF this] have "nodeType n = nodeType n'" by simp
    with ty have "nodeType n \<notin> Some ` set typeOrder" by simp
    from unplaced_node [where f = bandNode, OF band(1) bandNode_other d n(1) this]
    show ?thesis using n by simp
  next
    case ring
    from n' ring(2) obtain n where n: "n \<in> set (nodes g)"
      "n' = fold (ringNode fl) (enumerate 0 (map (nodesOfType m) typeOrder)) n" by auto
    have "withoutPosition n' = withoutPosition n" using n(2) by simp
    from withoutPosition_fields [OF this] have "nodeType n = nodeType n'" by simp
    with ty have "nodeType n \<notin> Some ` set typeOrder" by simp
    from unplaced_node [where f = "ringNode fl", OF ring(1) ringNode_other d n(1) this]
    show ?thesis using n by simp
  qed
qed

section \<open>The node pass and the stages after it\<close>

lemma addNodes_edges [simp]: "edges (addNodes m rs g) = edges g"
  by (induction rs arbitrary: g) (simp_all add: addNode_def)

lemma addNodes_keys:
  "set (map n_key (nodes (addNodes m rs g))) =
     set (map n_key (nodes g)) \<union> String_of ` node_id ` set rs"
proof (induction rs arbitrary: g)
  case Nil
  then show ?case by simp
next
  case (Cons r rs)
  show ?case
  proof (cases "hasNode g (String_of (node_id r))")
    case True
    then show ?thesis using Cons.IH [of g] by (auto simp: hasNode_def)
  next
    case False
    then show ?thesis
      using Cons.IH [of "addNode (makeNode m r) g"]
      by (auto simp: hasNode_def addNode_def makeNode_def)
  qed
qed

lemma addNodes_distinct:
  "distinct (map n_key (nodes g)) \<Longrightarrow> distinct (map n_key (nodes (addNodes m rs g)))"
proof (induction rs arbitrary: g)
  case Nil
  then show ?case by simp
next
  case (Cons r rs)
  show ?case
  proof (cases "hasNode g (String_of (node_id r))")
    case True
    then show ?thesis using Cons by simp
  next
    case False
    then have "distinct (map n_key (nodes (addNode (makeNode m r) g)))"
      using Cons.prems by (simp add: hasNode_def addNode_def makeNode_def)
    then show ?thesis using False Cons.IH by simp
  qed
qed

lemma addNodes_first:
  "n \<in> set (nodes (addNodes m rs g)) \<Longrightarrow>
   n \<in> set (nodes g) \<or>
   (n_key n \<notin> set (map n_key (nodes g)) \<and>
    (\<exists>r. find (\<lambda>r. String_of (node_id r) = n_key n) rs = Some r \<and> n = makeNode m r))"
proof (induction rs arbitrary: g)
  case Nil
  then show ?case by simp
next
  case (Cons r rs)
  show ?case
  proof (cases "hasNode g (String_of (node_id r))")
    case True
    with Cons.prems have "n \<in> set (nodes (addNodes m rs g))" by simp
    from Cons.IH [OF this] show ?thesis
      using True by (auto simp: hasNode_def)
  next
    case False
    with Cons.prems have "n \<in> set (nodes (addNodes m rs (addNode (makeNode m r) g)))" by simp
    from Cons.IH [OF this] show ?thesis
      using False by (auto simp: hasNode_def addNode_def makeNode_def)
  qed
qed

lemma addNodes_emptyGraph_distinct:
  "distinct (map n_key (nodes (addNodes m rs emptyGraph)))"
  by (rule addNodes_distinct) (simp add: emptyGraph_def)

lemma addNodes_emptyGraph_keys:
  "set (map n_key (nodes (addNodes m rs emptyGraph))) = String_of ` node_id ` set rs"
  using addNodes_keys [of m rs emptyGraph] by (simp add: emptyGraph_def)

lemma addNodes_emptyGraph_length:
  "length (nodes (addNodes m rs emptyGraph)) = card (String_of ` node_id ` set rs)"
proof -
  have "card (set (map n_key (nodes (addNodes m rs emptyGraph)))) =
        length (map n_key (nodes (addNodes m rs emptyGraph)))"
    by (rule distinct_card) (rule addNodes_emptyGraph_distinct)
  then show ?thesis using addNodes_emptyGraph_keys [of m rs] by simp
qed

lemma addNodes_emptyGraph_first:
  "n \<in> set (nodes (addNodes m rs emptyGraph)) \<Longrightarrow>
   \<exists>r. find (\<lambda>r. String_of (node_id r) = n_key n) rs = Some r \<and> n = makeNode m r"
  by (drule addNodes_first) (simp add: emptyGraph_def)

lemma withoutPosition_makeNode [simp]: "withoutPosition (makeNode m r) = makeNode m r"
  by (simp add: withoutPosition_def makeNode_def)

lemma addNodes_emptyGraph_unplaced:
  "map withoutPosition (nodes (addNodes m rs emptyGraph)) = nodes (addNodes m rs emptyGraph)"
  by (rule map_idI) (auto dest: addNodes_emptyGraph_first)

lemma addNodes_nonempty: "rs \<noteq> [] \<Longrightarrow> nodes (addNodes m rs emptyGraph) \<noteq> []"
proof -
  assume "rs \<noteq> []"
  then have "String_of ` node_id ` set rs \<noteq> {}" by simp
  then have "set (map n_key (nodes (addNodes m rs emptyGraph))) \<noteq> {}"
    using addNodes_emptyGraph_keys [of m rs] by simp
  then show ?thesis by (cases "nodes (addNodes m rs emptyGraph)") simp_all
qed

text \<open>The edge loop and the refinement leave the node set and the node attributes alone.\<close>

lemma processEdge_nodes [simp]:
  "nodes (es_graph (processEdge fl dense p st)) = nodes (es_graph st)"
proof -
  obtain index ej where p: "p = (index, ej)" by (cases p)
  show ?thesis
    by (cases ej)
      (auto simp: p Let_def addEdgeWithKey_def split: jsval.splits sum.splits if_splits)
qed

lemma fold_processEdge_nodes [simp]:
  "nodes (es_graph (fold (processEdge fl dense) ops st)) = nodes (es_graph st)"
  by (induction ops arbitrary: st) simp_all

lemma addEdges_nodes [simp]: "nodes (es_graph (addEdges fl dense es g)) = nodes g"
  by (simp add: addEdges_def)

lemma assign_frame [simp]:
  "map withoutPosition (nodes (assign layout p g)) = map withoutPosition (nodes g)"
  "edges (assign layout p g) = edges g"
  by (simp_all add: assign_def withoutPosition_def comp_def)

lemma constructGraph_nodes:
  assumes "data_nodes d = Some ns" "ns \<noteq> []" "constructGraph fl d w = Inr (g, c)"
  shows "map withoutPosition (nodes g) = nodes (nodePass ns)"
proof -
  let ?g0 = "nodePass ns"
  from assms obtain g1 where
    lay: "(if w then applyWordLayout ?g0 else applyRadialLayout fl ?g0) = Inr g1"
    and g: "nodes g = nodes g1"
    by (auto simp: constructGraph_def Let_def nodePass_def sectionIdMapOf_def
        split: sum.splits option.splits if_splits)
  have "map withoutPosition (nodes g1) = map withoutPosition (nodes ?g0)"
    using lay applyWordLayout_frame applyRadialLayout_frame by (auto split: if_splits)
  then show ?thesis
    using g by (simp add: nodePass_def addNodes_emptyGraph_unplaced)
qed

lemma buildGraphFromData_nodes:
  assumes "data_nodes d = Some ns" "ns \<noteq> []"
    "buildGraphFromData fl inferSettings layout d w = Inr g"
  shows "map withoutPosition (nodes g) = nodes (nodePass ns)"
proof -
  from assms(3) obtain g0 c where c: "constructGraph fl d w = Inr (g0, c)"
    and g: "map withoutPosition (nodes g) = map withoutPosition (nodes g0)"
    by (auto simp: buildGraphFromData_def split: sum.splits option.splits)
  show ?thesis using constructGraph_nodes [OF assms(1,2) c] g by simp
qed

lemma constructGraph_returns:
  assumes "data_nodes d = Some ns" "ns \<noteq> []"
  shows "(\<exists>r. constructGraph fl d w = Inr r) \<longleftrightarrow>
         (\<forall>n\<in>set (nodes (nodePass ns)). groupKey n \<notin> set objectPrototypeKeys)"
proof -
  let ?g0 = "nodePass ns"
  have "(\<exists>r. constructGraph fl d w = Inr r) \<longleftrightarrow>
        (\<exists>g1. (if w then applyWordLayout ?g0 else applyRadialLayout fl ?g0) = Inr g1)"
    using assms
    by (auto simp: constructGraph_def Let_def nodePass_def sectionIdMapOf_def
        split: sum.splits option.splits)
  then show ?thesis
    using applyWordLayout_returns [of ?g0] applyRadialLayout_returns [of fl ?g0]
    by (simp split: if_splits)
qed

lemma buildGraphFromData_returns:
  assumes "data_nodes d = Some ns" "ns \<noteq> []"
  shows "(\<exists>g. buildGraphFromData fl inferSettings layout d w = Inr g) \<longleftrightarrow>
         (\<forall>n\<in>set (nodes (nodePass ns)). groupKey n \<notin> set objectPrototypeKeys)"
proof -
  have "(\<exists>g. buildGraphFromData fl inferSettings layout d w = Inr g) \<longleftrightarrow>
        (\<exists>r. constructGraph fl d w = Inr r)"
    by (auto simp: buildGraphFromData_def split: sum.splits option.splits prod.splits)
  then show ?thesis using constructGraph_returns [OF assms] by simp
qed

section \<open>The numbering of the Section ids\<close>

lemma firstOccurrences_filter:
  "filter P (firstOccurrences xs) = firstOccurrences (filter P xs)"
proof (induction xs rule: firstOccurrences.induct)
  case 1
  then show ?case by simp
next
  case (2 x xs)
  have comm: "filter P (filter (\<lambda>y. y \<noteq> x) xs) = filter (\<lambda>y. y \<noteq> x) (filter P xs)"
    by (simp add: conj_commute)
  show ?case
  proof (cases "P x")
    case True
    then show ?thesis using 2 comm by simp
  next
    case False
    then have "filter P (filter (\<lambda>y. y \<noteq> x) xs) = filter P xs"
      by (auto intro: filter_cong)
    then show ?thesis using 2 False by simp
  qed
qed

lemma set_firstOccurrences [simp]: "set (firstOccurrences xs) = set xs"
  by (induction xs rule: firstOccurrences.induct) auto

lemma distinct_firstOccurrences [simp]: "distinct (firstOccurrences xs)"
  by (induction xs rule: firstOccurrences.induct) auto

lemma collectSections_spec:
  "collectSections rs (c, m) = (c', m') \<Longrightarrow>
   S = firstOccurrences (filter (\<lambda>k. k \<notin> dom m) (sectionIds rs)) \<Longrightarrow>
   c' = c + length S
   \<and> (\<forall>i<length S. m' (S ! i) = Some (c + i + 1))
   \<and> (\<forall>k. k \<notin> set S \<longrightarrow> m' k = m k)"
proof (induction rs arbitrary: c m S)
  case Nil
  then show ?case by (simp add: sectionIds_def)
next
  case (Cons r rs)
  let ?k = "String_of (node_id r)"
  show ?case
  proof (cases "node_type r = Some (js ''Section'')")
    case False
    then have "collectSections rs (c, m) = (c', m')"
      and "S = firstOccurrences (filter (\<lambda>k. k \<notin> dom m) (sectionIds rs))"
      using Cons.prems by (simp_all add: sectionIds_def)
    then show ?thesis by (rule Cons.IH)
  next
    case True
    then have ids: "sectionIds (r # rs) = ?k # sectionIds rs"
      by (simp add: sectionIds_def)
    show ?thesis
    proof (cases "m ?k")
      case (Some v)
      then have "collectSections rs (c, m) = (c', m')"
        and "S = firstOccurrences (filter (\<lambda>k. k \<notin> dom m) (sectionIds rs))"
        using Cons.prems True by (simp_all add: ids domIff)
      then show ?thesis by (rule Cons.IH)
    next
      case None
      let ?S' = "firstOccurrences (filter (\<lambda>k. k \<notin> dom (m(?k \<mapsto> c + 1))) (sectionIds rs))"
      have run: "collectSections rs (c + 1, m(?k \<mapsto> c + 1)) = (c', m')"
        using Cons.prems(1) True None by simp
      have "filter (\<lambda>y. y \<noteq> ?k) (filter (\<lambda>k. k \<notin> dom m) (sectionIds rs)) =
            filter (\<lambda>k. k \<notin> dom (m(?k \<mapsto> c + 1))) (sectionIds rs)"
        by (simp add: conj_commute)
      then have S: "S = ?k # ?S'"
        using Cons.prems(2) None by (simp add: ids domIff)
      have notin: "?k \<notin> set ?S'" by simp
      from Cons.IH [OF run refl] have
        c': "c' = c + 1 + length ?S'"
        and idx: "\<forall>i<length ?S'. m' (?S' ! i) = Some (c + 1 + i + 1)"
        and rest: "\<forall>k. k \<notin> set ?S' \<longrightarrow> m' k = (m(?k \<mapsto> c + 1)) k"
        by blast+
      have first: "m' ?k = Some (c + 1)" using rest notin by simp
      have "\<forall>i<length S. m' (S ! i) = Some (c + i + 1)"
      proof (intro allI impI)
        fix i assume "i < length S"
        then show "m' (S ! i) = Some (c + i + 1)"
          using idx first by (cases i) (simp_all add: S)
      qed
      moreover have "\<forall>k. k \<notin> set S \<longrightarrow> m' k = m k"
      proof (intro allI impI)
        fix k assume "k \<notin> set S"
        then have "k \<noteq> ?k" "k \<notin> set ?S'" unfolding S by (simp_all only: list.set insert_iff de_Morgan_disj not_False_eq_True)
        then show "m' k = m k" using rest by simp
      qed
      ultimately show ?thesis using c' by (simp add: S)
    qed
  qed
qed

lemma sectionIdMapOf_order:
  "i < length (sectionOrder ns) \<Longrightarrow> sectionIdMapOf ns (sectionOrder ns ! i) = Some (i + 1)"
proof -
  assume i: "i < length (sectionOrder ns)"
  obtain c' m' where run: "collectSections ns (0, Map.empty) = (c', m')"
    by (cases "collectSections ns (0, Map.empty)")
  have S: "sectionOrder ns = firstOccurrences (filter (\<lambda>k. k \<notin> dom Map.empty) (sectionIds ns))"
    by (simp add: sectionOrder_def)
  from collectSections_spec [OF run S] i have "m' (sectionOrder ns ! i) = Some (i + 1)"
    by simp
  then show ?thesis by (simp add: sectionIdMapOf_def run)
qed

lemma set_sectionOrder:
  "set (sectionOrder ns) =
     String_of ` node_id ` {r \<in> set ns. node_type r = Some (js ''Section'')}"
  by (auto simp: sectionOrder_def sectionIds_def)

section \<open>The layouts on concrete graphs\<close>

lemmas layout_eval =
  exactOps_def js_mul_def groupKey_def typeOrder_def objectPrototypeKeys_def js_def nodesOfType_def
  setNodeAttribute_x_def setNodeAttribute_y_def plainNode_def Let_def


lemma applyWordLayout_wordOnlyGraph:
  "applyWordLayout wordOnlyGraph =
     Inr \<lparr>nodes = [plainNode (js ''w1'') (Some (js ''Word'')) 10 0 300], edges = []\<rparr>"
  by (simp add: applyWordLayout_def placeBand_def wordOnlyGraph_def layout_eval)

lemma applyRadialLayout_wordOnlyGraph:
  "applyRadialLayout exactOps wordOnlyGraph =
     Inr \<lparr>nodes = [plainNode (js ''w1'') (Some (js ''Word'')) 10 600 0], edges = []\<rparr>"
  by (simp add: applyRadialLayout_def placeRing_def wordOnlyGraph_def layout_eval)

lemma consecutiveLevel_wordOnlyGraph: "consecutiveLevel wordOnlyGraph (js ''Word'') = 0"
  by (simp add: consecutiveLevel_def wordOnlyGraph_def plainNode_def typeOrder_def js_def)

lemmas build_eval =
  buildGraphFromData_def constructGraph_def refinementCall_def assign_def
  applyWordLayout_def applyRadialLayout_def placeBand_def placeRing_def
  emptyGraph_def hasNode_def addNode_def makeNode_def nodeLabel_def dynamicSize_def
  rawNode_def plainNode_def originLayout_def noSettings_def layout_eval

lemma digits_7: "digits 7 = [55]"
  by (simp add: digits.simps)

lemma build_emptyIdData:
  "buildGraphFromData exactOps noSettings originLayout emptyIdData False =
     Inr \<lparr>nodes = [plainNode [] None 10 0 0], edges = []\<rparr>"
  by (simp add: emptyIdData_def build_eval)

lemma build_duplicateIdData:
  "buildGraphFromData exactOps noSettings originLayout duplicateIdData False =
     Inr \<lparr>nodes = [(plainNode (js ''a'') (Some (js ''Word'')) 10 0 0)\<lparr>n_label := js ''first''\<rparr>,
                   plainNode [55] None 10 0 0],
          edges = []\<rparr>"
  by (simp add: duplicateIdData_def build_eval String_int_def digits_7)

lemma build_sectionOrderData:
  "buildGraphFromData exactOps noSettings originLayout sectionOrderData True =
     Inr \<lparr>nodes = [(plainNode (js ''s3'') (Some (js ''Section'')) 18 0 0)\<lparr>n_label := js ''1''\<rparr>,
                   (plainNode (js ''s1'') (Some (js ''Section'')) 18 0 0)\<lparr>n_label := js ''2''\<rparr>,
                   (plainNode (js ''s2'') (Some (js ''Section'')) 18 0 0)\<lparr>n_label := js ''3''\<rparr>],
          edges = []\<rparr>"
  by (simp add: sectionOrderData_def build_eval digits.simps)

lemma build_emptyLabelData:
  "buildGraphFromData exactOps noSettings originLayout emptyLabelData False =
     Inr \<lparr>nodes = [plainNode (js ''w'') (Some (js ''Word'')) 10 0 0], edges = []\<rparr>"
  by (simp add: emptyLabelData_def build_eval)

text \<open>
  A Section record whose id was taken by an earlier record of another type uses up a
  number that no node displays: the only Section node of the output is labelled "2".
\<close>

lemma build_shadowedSectionData:
  "buildGraphFromData exactOps noSettings originLayout shadowedSectionData True =
     Inr \<lparr>nodes = [plainNode (js ''x'') (Some (js ''Word'')) 10 0 0,
                   (plainNode (js ''y'') (Some (js ''Section'')) 18 0 0)\<lparr>n_label := js ''2''\<rparr>],
          edges = []\<rparr>"
  by (simp add: shadowedSectionData_def build_eval digits.simps)

section \<open>The edge loop\<close>

lemma edgeLoop_0 [simp]:
  "edgeLoop fl dense es 0 g = \<lparr>es_graph = g, addedEdges = {}, duplicateCount = 0\<rparr>"
  by (simp add: edgeLoop_def)

lemma edgeLoop_Suc:
  "i < length es \<Longrightarrow>
   edgeLoop fl dense es (Suc i) g = processEdge fl dense (i, es ! i) (edgeLoop fl dense es i g)"
  by (simp add: edgeLoop_def take_Suc_conv_app_nth enumerate_append_eq)

lemma edgeLoop_all: "addEdges fl dense es g = edgeLoop fl dense es (length es) g"
  by (simp add: addEdges_def edgeLoop_def)

lemma processEdge_accept:
  assumes "passesAllChecks (index, EdgeObject r) st"
  shows "\<exists>eid. edgeId r (trim (String_of (edge_source r))) (trim (String_of (edge_target r))) index
              = JString eid
          \<and> processEdge fl dense (index, EdgeObject r) st =
             st\<lparr>es_graph := (es_graph st)\<lparr>edges := edges (es_graph st) @
                    [makeEdge fl dense r eid (trim (String_of (edge_source r)))
                       (trim (String_of (edge_target r)))]\<rparr>,
                addedEdges := insert (edgeKey (trim (String_of (edge_source r)))
                                        (trim (String_of (edge_target r)))) (addedEdges st)\<rparr>"
  using assms
  by (auto simp: Let_def addEdgeWithKey_def makeEdge_def split: jsval.splits)

lemma processEdge_duplicate:
  assumes "edgeEndpoints ej = Some (s, t)" and "edgeKey s t \<in> addedEdges st"
  shows "processEdge fl dense (index, ej) st = st\<lparr>duplicateCount := duplicateCount st + 1\<rparr>"
  using assms by (cases ej) (auto simp: Let_def split: if_splits)

lemma processEdge_reject:
  assumes "\<not> passesAllChecks (index, ej) st"
    and "\<forall>s t. edgeEndpoints ej = Some (s, t) \<longrightarrow> edgeKey s t \<notin> addedEdges st"
  shows "processEdge fl dense (index, ej) st = st"
  using assms
  by (cases ej) (auto simp: Let_def addEdgeWithKey_def makeEdge_def split: jsval.splits if_splits)

lemma processEdge_not_accept:
  assumes "\<not> passesAllChecks (index, ej) st"
  shows "es_graph (processEdge fl dense (index, ej) st) = es_graph st
       \<and> addedEdges (processEdge fl dense (index, ej) st) = addedEdges st"
proof (cases "\<forall>s t. edgeEndpoints ej = Some (s, t) \<longrightarrow> edgeKey s t \<notin> addedEdges st")
  case True
  then show ?thesis using processEdge_reject [OF assms] by simp
next
  case False
  then obtain s t where "edgeEndpoints ej = Some (s, t)" "edgeKey s t \<in> addedEdges st"
    by blast
  then show ?thesis by (simp add: processEdge_duplicate)
qed

lemma accepted_iff: "accepted fl dense (index, ej) st \<longleftrightarrow> passesAllChecks (index, ej) st"
proof (cases "passesAllChecks (index, ej) st")
  case True
  then obtain r where ej: "ej = EdgeObject r" by (cases ej) simp_all
  from processEdge_accept [OF True [unfolded ej], of fl dense] show ?thesis
    using True by (auto simp: accepted_def ej)
next
  case False
  then show ?thesis using processEdge_not_accept [OF False, of fl dense] by (simp add: accepted_def)
qed

lemma pairKey_makeEdge [simp]: "pairKey (makeEdge fl dense r eid s t) = edgeKey s t"
  by (simp add: pairKey_def makeEdge_def)

lemma processEdge_loopInv:
  assumes "loopInv st"
  shows "loopInv (processEdge fl dense p st)"
proof -
  obtain index ej where p: "p = (index, ej)" by (cases p)
  show ?thesis
  proof (cases "passesAllChecks (index, ej) st")
    case True
    then obtain r where ej: "ej = EdgeObject r" by (cases ej) simp_all
    from True have new: "edgeKey (trim (String_of (edge_source r))) (trim (String_of (edge_target r)))
        \<notin> addedEdges st"
      by (simp add: ej)
    from processEdge_accept [OF True [unfolded ej], of fl dense] show ?thesis
      using assms new by (auto simp: loopInv_def p ej)
  next
    case False
    from processEdge_not_accept [OF False, of fl dense] show ?thesis
      using assms by (simp add: loopInv_def p)
  qed
qed

lemma fold_processEdge_loopInv:
  "loopInv st \<Longrightarrow> loopInv (fold (processEdge fl dense) ops st)"
  by (induction ops arbitrary: st) (simp_all add: processEdge_loopInv)

lemma edgeLoop_loopInv: "edges g = [] \<Longrightarrow> loopInv (edgeLoop fl dense es i g)"
  unfolding edgeLoop_def by (rule fold_processEdge_loopInv) (simp add: loopInv_def)

lemma processEdge_grows:
  "set (edges (es_graph st)) \<subseteq> set (edges (es_graph (processEdge fl dense p st)))
   \<and> addedEdges st \<subseteq> addedEdges (processEdge fl dense p st)"
proof -
  obtain index ej where p: "p = (index, ej)" by (cases p)
  show ?thesis
  proof (cases "passesAllChecks (index, ej) st")
    case True
    then obtain r where ej: "ej = EdgeObject r" by (cases ej) simp_all
    from processEdge_accept [OF True [unfolded ej], of fl dense] show ?thesis
      by (auto simp: p ej)
  next
    case False
    from processEdge_not_accept [OF False, of fl dense] show ?thesis by (simp add: p)
  qed
qed

lemma fold_processEdge_grows:
  "set (edges (es_graph st)) \<subseteq> set (edges (es_graph (fold (processEdge fl dense) ops st)))
   \<and> addedEdges st \<subseteq> addedEdges (fold (processEdge fl dense) ops st)"
proof (induction ops arbitrary: st)
  case Nil
  then show ?case by simp
next
  case (Cons p ops)
  show ?case
    using processEdge_grows [of st fl dense p] Cons.IH [of "processEdge fl dense p st"] by auto
qed

lemma edgeLoop_grows:
  assumes "i \<le> j"
  shows "set (edges (es_graph (edgeLoop fl dense es i g))) \<subseteq> set (edges (es_graph (edgeLoop fl dense es j g)))
       \<and> addedEdges (edgeLoop fl dense es i g) \<subseteq> addedEdges (edgeLoop fl dense es j g)"
proof -
  have "take j es = take i es @ drop i (take j es)"
    using assms by (metis append_take_drop_id min.absorb1 take_take)
  then have "enumerate 0 (take j es) =
      enumerate 0 (take i es) @ enumerate (length (take i es)) (drop i (take j es))"
    by (metis add_0 enumerate_append_eq)
  then have "edgeLoop fl dense es j g =
      fold (processEdge fl dense) (enumerate (length (take i es)) (drop i (take j es)))
        (edgeLoop fl dense es i g)"
    by (simp add: edgeLoop_def)
  then show ?thesis using fold_processEdge_grows by metis
qed

lemma edgeLoop_nodes [simp]: "nodes (es_graph (edgeLoop fl dense es i g)) = nodes g"
  by (simp add: edgeLoop_def)

lemma edgeLoop_hasNode [simp]: "hasNode (es_graph (edgeLoop fl dense es i g)) k = hasNode g k"
  by (simp add: hasNode_def)

lemma single_of_distinct_constant:
  "distinct (map f xs) \<Longrightarrow> \<forall>x\<in>set xs. f x = c \<Longrightarrow> x \<in> set xs \<Longrightarrow> xs = [x]"
proof (cases xs)
  case Nil
  assume "x \<in> set xs"
  with Nil show ?thesis by simp
next
  case (Cons a as)
  assume d: "distinct (map f xs)" and c: "\<forall>x\<in>set xs. f x = c" and x: "x \<in> set xs"
  have "as = []"
  proof (cases as)
    case Nil
    then show ?thesis .
  next
    case (Cons b bs)
    with \<open>xs = a # as\<close> d c show ?thesis by auto
  qed
  with Cons x show ?thesis by simp
qed

text \<open>An accepted record appends one edge, built from that record; every edge of the
  graph after the loop was appended by an accepted record.\<close>

lemma accepted_appends:
  assumes i: "i < length es"
    and acc: "accepted fl dense (i, es ! i) (edgeLoop fl dense es i g)"
  shows "\<exists>r eid. es ! i = EdgeObject r
           \<and> acceptedAs fl dense es g i
               (makeEdge fl dense r eid (trim (String_of (edge_source r)))
                  (trim (String_of (edge_target r))))"
proof -
  let ?st = "edgeLoop fl dense es i g"
  from acc have pass: "passesAllChecks (i, es ! i) ?st" by (simp add: accepted_iff)
  then obtain r where r: "es ! i = EdgeObject r" by (cases "es ! i") simp_all
  from processEdge_accept [OF pass [unfolded r], of fl dense] obtain eid where
    "edges (es_graph (edgeLoop fl dense es (Suc i) g)) =
       edges (es_graph ?st) @
         [makeEdge fl dense r eid (trim (String_of (edge_source r))) (trim (String_of (edge_target r)))]"
    using edgeLoop_Suc [OF i, of fl dense g] r by auto
  then show ?thesis using r i acc by (auto simp: acceptedAs_def)
qed

lemma acceptedAs_edge:
  assumes "acceptedAs fl dense es g i e"
  shows "\<exists>r eid. es ! i = EdgeObject r
           \<and> e = makeEdge fl dense r eid (trim (String_of (edge_source r)))
                  (trim (String_of (edge_target r)))"
proof -
  from assms have i: "i < length es"
    and acc: "accepted fl dense (i, es ! i) (edgeLoop fl dense es i g)"
    and app: "edges (es_graph (edgeLoop fl dense es (Suc i) g)) =
         edges (es_graph (edgeLoop fl dense es i g)) @ [e]"
    by (simp_all add: acceptedAs_def)
  from accepted_appends [OF i acc] obtain r eid where
    r: "es ! i = EdgeObject r"
    and "acceptedAs fl dense es g i
           (makeEdge fl dense r eid (trim (String_of (edge_source r)))
              (trim (String_of (edge_target r))))"
    by blast
  then have "edges (es_graph (edgeLoop fl dense es (Suc i) g)) =
         edges (es_graph (edgeLoop fl dense es i g)) @
           [makeEdge fl dense r eid (trim (String_of (edge_source r)))
              (trim (String_of (edge_target r)))]"
    by (simp add: acceptedAs_def)
  with app have "e = makeEdge fl dense r eid (trim (String_of (edge_source r)))
              (trim (String_of (edge_target r)))"
    by simp
  with r show ?thesis by blast
qed

lemma acceptedAs_kept:
  assumes "acceptedAs fl dense es g i e"
  shows "e \<in> set (edges (es_graph (edgeLoop fl dense es (length es) g)))"
proof -
  from assms have i: "Suc i \<le> length es"
    and app: "edges (es_graph (edgeLoop fl dense es (Suc i) g)) =
         edges (es_graph (edgeLoop fl dense es i g)) @ [e]"
    by (simp_all add: acceptedAs_def)
  from app have "e \<in> set (edges (es_graph (edgeLoop fl dense es (Suc i) g)))" by simp
  then show ?thesis using edgeLoop_grows [OF i, of fl dense es g] by blast
qed

lemma edgeLoop_edges_origin:
  assumes "edges g = []"
  shows "k \<le> length es \<Longrightarrow> e \<in> set (edges (es_graph (edgeLoop fl dense es k g))) \<Longrightarrow>
         \<exists>i<k. acceptedAs fl dense es g i e"
proof (induction k)
  case 0
  then show ?case using assms by simp
next
  case (Suc k)
  then have k: "k < length es" by simp
  let ?st = "edgeLoop fl dense es k g"
  show ?case
  proof (cases "accepted fl dense (k, es ! k) ?st")
    case True
    from accepted_appends [OF k True] obtain r eid where
      a: "acceptedAs fl dense es g k
           (makeEdge fl dense r eid (trim (String_of (edge_source r)))
              (trim (String_of (edge_target r))))"
      by blast
    then have "edges (es_graph (edgeLoop fl dense es (Suc k) g)) =
         edges (es_graph ?st) @
           [makeEdge fl dense r eid (trim (String_of (edge_source r)))
              (trim (String_of (edge_target r)))]"
      by (simp add: acceptedAs_def)
    with Suc.prems(2) consider "e \<in> set (edges (es_graph ?st))"
      | "e = makeEdge fl dense r eid (trim (String_of (edge_source r))) (trim (String_of (edge_target r)))"
      by auto
    then show ?thesis
    proof cases
      case 1
      from Suc.IH [OF _ this] k show ?thesis by (meson less_Suc_eq less_imp_le)
    next
      case 2
      then show ?thesis using a by blast
    qed
  next
    case False
    then have "\<not> passesAllChecks (k, es ! k) ?st" by (simp add: accepted_iff)
    from processEdge_not_accept [OF this, of fl dense] have
      "edges (es_graph (edgeLoop fl dense es (Suc k) g)) = edges (es_graph ?st)"
      using edgeLoop_Suc [OF k, of fl dense g] by simp
    with Suc.prems(2) have "e \<in> set (edges (es_graph ?st))" by simp
    from Suc.IH [OF _ this] k show ?thesis by (meson less_Suc_eq less_imp_le)
  qed
qed

lemma edgeSize_floor: "3 / 2 \<le> edgeSize fl dense r"
proof -
  have "3 / 2 \<le> max x (1.5 :: real)" for x by simp
  then show ?thesis unfolding edgeSize_def by (cases dense) (simp_all only: if_True if_False)
qed

lemma e_size_makeEdge: "e_size (makeEdge fl dense r eid s t) = edgeSize fl dense r"
  using edgeSize_floor [of fl dense r] by (simp add: makeEdge_def)

lemma constructGraph_edges:
  assumes "data_nodes d = Some ns" "ns \<noteq> []" "constructGraph fl d w = Inr (g, c)"
  shows "(\<exists>es g1. data_edges d = Some es \<and> es \<noteq> [] \<and> edges g1 = []
            \<and> map withoutPosition (nodes g1) = nodes (nodePass ns)
            \<and> g = es_graph (addEdges fl (length ns > 200 \<or> length es > 500) es g1)
            \<and> c = duplicateCount (addEdges fl (length ns > 200 \<or> length es > 500) es g1))
         \<or> ((data_edges d = None \<or> data_edges d = Some []) \<and> edges g = [] \<and> c = 0)"
proof -
  let ?g0 = "nodePass ns"
  have cg: "constructGraph fl d w =
      (case (if w then applyWordLayout ?g0 else applyRadialLayout fl ?g0) of
         Inl e \<Rightarrow> Inl e
       | Inr g1 \<Rightarrow>
           (case data_edges d of
              None \<Rightarrow> Inr (g1, 0)
            | Some es \<Rightarrow>
                if es = [] then Inr (g1, 0)
                else Inr (es_graph (addEdges fl (length ns > 200 \<or> length es > 500) es g1),
                          duplicateCount (addEdges fl (length ns > 200 \<or> length es > 500) es g1))))"
    unfolding constructGraph_def Let_def nodePass_def sectionIdMapOf_def
    using assms(1,2) by simp
  from assms(3) obtain g1 where
    lay: "(if w then applyWordLayout ?g0 else applyRadialLayout fl ?g0) = Inr g1"
    unfolding cg by (auto split: sum.splits)
  have fr: "map withoutPosition (nodes g1) = map withoutPosition (nodes ?g0) \<and> edges g1 = edges ?g0"
    using lay applyWordLayout_frame applyRadialLayout_frame by (auto split: if_splits)
  have "map withoutPosition (nodes ?g0) = nodes ?g0"
    unfolding nodePass_def by (rule addNodes_emptyGraph_unplaced)
  moreover have "edges ?g0 = []" by (simp add: nodePass_def emptyGraph_def)
  ultimately have g1: "map withoutPosition (nodes g1) = nodes ?g0" "edges g1 = []"
    using fr by simp_all
  have res: "(case data_edges d of
              None \<Rightarrow> Inr (g1, 0)
            | Some es \<Rightarrow>
                if es = [] then Inr (g1, 0)
                else Inr (es_graph (addEdges fl (length ns > 200 \<or> length es > 500) es g1),
                          duplicateCount (addEdges fl (length ns > 200 \<or> length es > 500) es g1)))
        = (Inr (g, c) :: error + graph \<times> nat)"
    using assms(3) unfolding cg lay by simp
  show ?thesis
  proof (cases "data_edges d")
    case None
    then show ?thesis using res g1 by simp
  next
    case (Some es)
    show ?thesis
    proof (cases "es = []")
      case True
      then show ?thesis using res g1 Some by simp
    next
      case False
      then show ?thesis using res g1 Some by auto
    qed
  qed
qed

lemma constructGraph_unfold:
  assumes "data_nodes d = Some ns" "ns \<noteq> []"
    and "(if w then applyWordLayout (nodePass ns) else applyRadialLayout fl (nodePass ns)) = Inr g1"
    and "data_edges d = Some es" "es \<noteq> []"
  shows "constructGraph fl d w =
     Inr (es_graph (addEdges fl (length ns > 200 \<or> length es > 500) es g1),
          duplicateCount (addEdges fl (length ns > 200 \<or> length es > 500) es g1))"
proof -
  have "constructGraph fl d w =
      (case (if w then applyWordLayout (nodePass ns) else applyRadialLayout fl (nodePass ns)) of
         Inl e \<Rightarrow> Inl e
       | Inr g1 \<Rightarrow>
           (case data_edges d of
              None \<Rightarrow> Inr (g1, 0)
            | Some es \<Rightarrow>
                if es = [] then Inr (g1, 0)
                else Inr (es_graph (addEdges fl (length ns > 200 \<or> length es > 500) es g1),
                          duplicateCount (addEdges fl (length ns > 200 \<or> length es > 500) es g1))))"
    unfolding constructGraph_def Let_def nodePass_def sectionIdMapOf_def
    using assms(1,2) by simp
  then show ?thesis unfolding assms(3) using assms(4,5) by simp
qed

section \<open>The edge loop on concrete records\<close>

lemmas edge_eval =
  exactOps_def js_mul_def edgeLoop_def addEdges_def exampleEdges_def twoNodes_def rawEdge_def plainEdge_def plainNode_def
  hasNode_def addEdgeWithKey_def makeEdge_def edgeId_def edgeKey_def edgeSize_def edgeColor_def
  trim_def isWhiteSpace_def js_def Let_def digits.simps

lemma exampleEdges_state1:
  "edgeLoop exactOps False exampleEdges 1 twoNodes = \<lparr>es_graph = twoNodes, addedEdges = {}, duplicateCount = 0\<rparr>"
  by (simp add: edgeLoop_def exampleEdges_def)

lemma exampleEdges_state2:
  "edgeLoop exactOps False exampleEdges 2 twoNodes =
     \<lparr>es_graph = twoNodes\<lparr>edges := [plainEdge (js ''edge-a-b-1'') (js ''a'') (js ''b'') 2]\<rparr>,
      addedEdges = {edgeKey (js ''a'') (js ''b'')}, duplicateCount = 0\<rparr>"
  by (simp add: edge_eval numeral_2_eq_2)

lemma exampleEdges_state3:
  "edgeLoop exactOps False exampleEdges 3 twoNodes =
     \<lparr>es_graph = twoNodes\<lparr>edges := [plainEdge (js ''edge-a-b-1'') (js ''a'') (js ''b'') 2]\<rparr>,
      addedEdges = {edgeKey (js ''a'') (js ''b'')}, duplicateCount = 1\<rparr>"
  by (simp add: edge_eval numeral_3_eq_3)

lemma exampleEdges_final:
  "addEdges exactOps False exampleEdges twoNodes =
     \<lparr>es_graph = twoNodes\<lparr>edges := [plainEdge (js ''edge-a-b-1'') (js ''a'') (js ''b'') 2]\<rparr>,
      addedEdges = {edgeKey (js ''a'') (js ''b'')}, duplicateCount = 1\<rparr>"
  by (simp add: edge_eval)

lemmas build_edge_eval =
  build_eval addEdges_def rawEdge_def plainEdge_def addEdgeWithKey_def makeEdge_def edgeId_def
  edgeKey_def edgeSize_def edgeColor_def trim_def isWhiteSpace_def digits.simps twoNodes_def

lemma build_numericEdgeIdData:
  "buildGraphFromData exactOps noSettings originLayout numericEdgeIdData False = Inr twoNodes"
  by (simp add: numericEdgeIdData_def build_edge_eval)

lemma constructGraph_danglingTwiceData:
  "constructGraph exactOps danglingTwiceData False =
     Inr (\<lparr>nodes = [plainNode (js ''a'') None 10 0 0], edges = []\<rparr>, 0)"
  by (simp add: danglingTwiceData_def build_edge_eval)

lemma build_zeroSizeData:
  "buildGraphFromData exactOps noSettings originLayout zeroSizeData False =
     Inr (twoNodes\<lparr>edges := [plainEdge (js ''edge-a-b-0'') (js ''a'') (js ''b'') 2]\<rparr>)"
  by (simp add: zeroSizeData_def build_edge_eval)

lemma collectSections_no_section:
  "\<forall>r\<in>set rs. node_type r \<noteq> Some (js ''Section'') \<Longrightarrow> collectSections rs st = st"
proof (induction rs)
  case Nil
  then show ?case by simp
next
  case (Cons a rs)
  obtain c m where st: "st = (c, m)" by (cases st)
  show ?case using Cons by (simp add: st)
qed

lemma addNodes_present:
  "\<forall>r\<in>set rs. hasNode g (String_of (node_id r)) \<Longrightarrow> addNodes m rs g = g"
  by (induction rs) simp_all

lemma nodePass_denseData:
  "nodePass (the (data_nodes denseData)) = twoNodes"
proof -
  let ?a = "rawNode (JString (js ''a'')) None" and ?b = "rawNode (JString (js ''b'')) None"
  have m: "sectionIdMapOf (the (data_nodes denseData)) = Map.empty"
    by (simp add: sectionIdMapOf_def denseData_def collectSections_no_section rawNode_def)
  have "addNodes Map.empty (?a # ?b # replicate 199 ?b) emptyGraph =
        addNodes Map.empty (replicate 199 ?b) twoNodes"
    by (simp add: build_eval twoNodes_def)
  also have "\<dots> = twoNodes"
    by (rule addNodes_present) (simp add: hasNode_def twoNodes_def rawNode_def plainNode_def)
  finally show ?thesis by (simp add: nodePass_def m) (simp add: denseData_def)
qed

lemma build_denseData:
  "buildGraphFromData exactOps noSettings originLayout denseData False =
     Inr (twoNodes\<lparr>edges := [plainEdge (js ''edge-a-b-0'') (js ''a'') (js ''b'') 4]\<rparr>)"
proof -
  let ?e = "EdgeObject ((rawEdge JUndefined (JString (js ''a'')) (JString (js ''b'')))
                                       \<lparr>edge_size := Some 5\<rparr>)"
  have lay: "(if False then applyWordLayout (nodePass (the (data_nodes denseData)))
             else applyRadialLayout exactOps (nodePass (the (data_nodes denseData)))) = Inr twoNodes"
    unfolding nodePass_denseData by (simp add: build_edge_eval)
  have n: "data_nodes denseData = Some (the (data_nodes denseData))"
    "the (data_nodes denseData) \<noteq> []"
    by (simp_all add: denseData_def)
  have len: "length (the (data_nodes denseData)) = 201" by (simp add: denseData_def)
  have e: "data_edges denseData = Some [?e]" "[?e] \<noteq> []"
    by (simp_all add: denseData_def)
  have loop: "addEdges exactOps True [?e] twoNodes =
      \<lparr>es_graph = twoNodes\<lparr>edges := [plainEdge (js ''edge-a-b-0'') (js ''a'') (js ''b'') 4]\<rparr>,
       addedEdges = {edgeKey (js ''a'') (js ''b'')}, duplicateCount = 0\<rparr>"
    by (simp add: edge_eval)
  have "constructGraph exactOps denseData False =
      Inr (twoNodes\<lparr>edges := [plainEdge (js ''edge-a-b-0'') (js ''a'') (js ''b'') 4]\<rparr>, 0)"
    unfolding constructGraph_unfold [OF n lay e] len using loop by simp
  then show ?thesis
    by (simp add: buildGraphFromData_def refinementCall_def assign_def twoNodes_def
        originLayout_def plainNode_def)
qed

section \<open>Empty input\<close>

lemma constructGraph_emptyData:
  "constructGraph fl emptyData w = Inr (placeholderGraph, 0)"
  by (simp add: constructGraph_def emptyData_def placeholderGraph_def addNode_def emptyGraph_def)

text \<open>
  C1, as stated: the empty input yields the single placeholder node and the
  force-directed stage is skipped.  The first half holds, the second does not: the guard
  of that stage is \<^verbatim>\<open>graph.order > 0\<close>, and the placeholder graph has order 1, so
  \<^verbatim>\<open>forceAtlas2.assign\<close> is called with the overview preset.
\<close>

theorem empty_input_refinement_not_skipped:
  "constructGraph exactOps emptyData False = Inr (placeholderGraph, 0)
   \<and> length (nodes placeholderGraph) = 1
   \<and> refinementCall noSettings False placeholderGraph = Some (overviewPreset ())
   \<and> refinementCall noSettings False placeholderGraph \<noteq> None"
  by (simp add: constructGraph_emptyData refinementCall_def placeholderGraph_def noSettings_def)

text \<open>
  C1, amended: for the input \<^verbatim>\<open>{nodes: [], edges: []}\<close> the build constructs exactly one
  node, with key "empty", category "Empty", the fixed label, size 20 and position (50, 50),
  and no edge; the force-directed stage then runs on this one-node graph with the preset
  of the mode, so the returned graph is that node with the position ForceAtlas2 assigns.
\<close>

theorem empty_input_placeholder_then_refined:
  "constructGraph fl emptyData w = Inr (placeholderGraph, 0)
   \<and> nodes placeholderGraph = [placeholderNode]
   \<and> edges placeholderGraph = []
   \<and> nodeType placeholderNode = Some (js ''Empty'')
   \<and> n_label placeholderNode = js ''No data yet - upload a .flextext file!''
   \<and> (n_x placeholderNode, n_y placeholderNode) = (50, 50)
   \<and> refinementCall inferSettings w placeholderGraph =
        Some (if w then wordPreset (inferSettings placeholderGraph)
              else overviewPreset (inferSettings placeholderGraph))
   \<and> buildGraphFromData fl inferSettings layout emptyData w =
        Inr (assign layout
               (if w then wordPreset (inferSettings placeholderGraph)
                else overviewPreset (inferSettings placeholderGraph))
               placeholderGraph)
   \<and> map nodeType
        (nodes (assign layout
               (if w then wordPreset (inferSettings placeholderGraph)
                else overviewPreset (inferSettings placeholderGraph))
               placeholderGraph)) = [Some (js ''Empty'')]"
  by (simp add: constructGraph_emptyData buildGraphFromData_def refinementCall_def
      placeholderGraph_def placeholderNode_def assign_def)

section \<open>Levels of the categories\<close>

text \<open>
  C2, as stated: a category without nodes reserves no gap, so the categories that are
  present get consecutive level indices.  It fails in both layouts: the level index is
  the \<^verbatim>\<open>forEach\<close> index over the whole of \<open>typeOrder\<close>.  A graph whose only node is a Word
  has its band at \<open>y = 300\<close> and its ring at radius 600 (level 3), not at level 0.
\<close>

theorem absent_category_keeps_its_level:
  "applyWordLayout wordOnlyGraph =
     Inr \<lparr>nodes = [plainNode (js ''w1'') (Some (js ''Word'')) 10 0 300], edges = []\<rparr>
   \<and> applyRadialLayout exactOps wordOnlyGraph =
     Inr \<lparr>nodes = [plainNode (js ''w1'') (Some (js ''Word'')) 10 600 0], edges = []\<rparr>
   \<and> consecutiveLevel wordOnlyGraph (js ''Word'') = 0
   \<and> n_y (plainNode (js ''w1'') (Some (js ''Word'')) 10 0 300)
        \<noteq> real (consecutiveLevel wordOnlyGraph (js ''Word'')) * 100
   \<and> n_x (plainNode (js ''w1'') (Some (js ''Word'')) 10 600 0)
        \<noteq> real (consecutiveLevel wordOnlyGraph (js ''Word'')) * 200 * cos ((2 * pi * 0) / 1)"
  by (simp add: applyWordLayout_wordOnlyGraph applyRadialLayout_wordOnlyGraph
      consecutiveLevel_wordOnlyGraph plainNode_def)

text \<open>
  C2, amended: in both layouts a category without nodes places nothing, but its level
  stays reserved.  On every graph with distinct node keys and no node type that is the
  name of a member of \<^verbatim>\<open>Object.prototype\<close>, both layouts return, keep every node and change
  positions only; a node of the category at index \<open>L\<close> of the fixed ordering (Text 0,
  Section 1, Phrase 2, Word 3, Morpheme 4, Gloss 5) has \<open>y = L * 100\<close> in the word layout,
  and in the radial layout it is on the ring of radius \<open>L * 200\<close>, at the angle of its
  position \<open>i\<close> among the \<open>N\<close> nodes of the category: \<^verbatim>\<open>x = radius * Math.cos(angle)\<close>,
  \<^verbatim>\<open>y = radius * Math.sin(angle)\<close>, \<^verbatim>\<open>angle = (2 * Math.PI * i) / N\<close>, every operation being
  the operation of the doubles; whichever other categories have nodes.
\<close>

theorem layout_level_is_index_in_typeOrder:
  assumes safe: "\<forall>n\<in>set (nodes g). groupKey n \<notin> set objectPrototypeKeys"
    and d: "distinct (map n_key (nodes g))"
  shows "\<exists>gb gr. applyWordLayout g = Inr gb \<and> applyRadialLayout fl g = Inr gr
           \<and> map withoutPosition (nodes gb) = map withoutPosition (nodes g)
           \<and> map withoutPosition (nodes gr) = map withoutPosition (nodes g)
           \<and> (\<forall>L<length typeOrder.
                (\<forall>n'\<in>set (nodes gb). nodeType n' = Some (typeOrder ! L) \<longrightarrow>
                   n_y n' = real L * 100)
              \<and> (\<forall>n'\<in>set (nodes gr). nodeType n' = Some (typeOrder ! L) \<longrightarrow>
                   (\<exists>i<length (categoryKeys g L).
                      n_key n' = categoryKeys g L ! i
                      \<and> n_x n' = js_mul fl (real L * 200)
                          (fl_cos fl (fl_div fl (js_mul fl (js_mul fl 2 (fl_pi fl)) (real i))
                                         (real (length (categoryKeys g L)))))
                      \<and> n_y n' = js_mul fl (real L * 200)
                          (fl_sin fl (fl_div fl (js_mul fl (js_mul fl 2 (fl_pi fl)) (real i))
                                         (real (length (categoryKeys g L))))))))"
proof -
  from safe obtain gb where band: "applyWordLayout g = Inr gb"
    using applyWordLayout_returns [of g] by blast
  from safe obtain gr where ring: "applyRadialLayout fl g = Inr gr"
    using applyRadialLayout_returns [of fl g] by blast
  from applyWordLayout_frame [OF band]
  have fb: "map withoutPosition (nodes gb) = map withoutPosition (nodes g)" by simp
  from applyRadialLayout_frame [OF ring]
  have fr: "map withoutPosition (nodes gr) = map withoutPosition (nodes g)" by simp
  have ids: "categoryKeys g L = map n_key (filter (\<lambda>a. nodeType a = Some (typeOrder ! L)) (nodes g))"
    for L
    by (simp add: categoryKeys_def)
  have yb: "n_y n' = real L * 100"
    if L: "L < length typeOrder" and n': "n' \<in> set (nodes gb)"
      and ty: "nodeType n' = Some (typeOrder ! L)" for L n'
  proof -
    from index_in_category [OF fb n' ty] obtain i where
      i: "i < length (categoryKeys g L)" "n_key n' = categoryKeys g L ! i"
      unfolding ids by blast
    from banded_position [OF band d L ids i(1) n' i(2)] show ?thesis by simp
  qed
  have xr: "\<exists>i<length (categoryKeys g L).
              n_key n' = categoryKeys g L ! i
              \<and> n_x n' = js_mul fl (real L * 200)
                  (fl_cos fl (fl_div fl (js_mul fl (js_mul fl 2 (fl_pi fl)) (real i))
                                 (real (length (categoryKeys g L)))))
              \<and> n_y n' = js_mul fl (real L * 200)
                  (fl_sin fl (fl_div fl (js_mul fl (js_mul fl 2 (fl_pi fl)) (real i))
                                 (real (length (categoryKeys g L)))))"
    if L: "L < length typeOrder" and n': "n' \<in> set (nodes gr)"
      and ty: "nodeType n' = Some (typeOrder ! L)" for L n'
  proof -
    from index_in_category [OF fr n' ty] obtain i where
      i: "i < length (categoryKeys g L)" "n_key n' = categoryKeys g L ! i"
      unfolding ids by blast
    from ring_position [OF ring d L ids i(1) n' i(2)] i show ?thesis by blast
  qed
  show ?thesis
  proof (rule exI [of _ gb], rule exI [of _ gr], intro conjI allI impI ballI)
    show "applyWordLayout g = Inr gb" "applyRadialLayout fl g = Inr gr"
      "map withoutPosition (nodes gb) = map withoutPosition (nodes g)"
      "map withoutPosition (nodes gr) = map withoutPosition (nodes g)"
      using band ring fb fr by simp_all
  next
    fix L n' assume "L < length typeOrder" "n' \<in> set (nodes gb)"
      "nodeType n' = Some (typeOrder ! L)"
    then show "n_y n' = real L * 100" by (rule yb)
  next
    fix L n' assume "L < length typeOrder" "n' \<in> set (nodes gr)"
      "nodeType n' = Some (typeOrder ! L)"
    then show "\<exists>i<length (categoryKeys g L).
              n_key n' = categoryKeys g L ! i
              \<and> n_x n' = js_mul fl (real L * 200)
                  (fl_cos fl (fl_div fl (js_mul fl (js_mul fl 2 (fl_pi fl)) (real i))
                                 (real (length (categoryKeys g L)))))
              \<and> n_y n' = js_mul fl (real L * 200)
                  (fl_sin fl (fl_div fl (js_mul fl (js_mul fl 2 (fl_pi fl)) (real i))
                                 (real (length (categoryKeys g L)))))"
      by (rule xr)
  qed
qed

text \<open>The amended statement at the graph with a single Word node, in both layouts: the
  band at \<open>y = 300\<close>, the ring of radius 600.\<close>

theorem layout_level_is_index_in_typeOrder_witness:
  "distinct (map n_key (nodes wordOnlyGraph))
   \<and> nodeType (plainNode (js ''w1'') (Some (js ''Word'')) 10 0 300) = Some (typeOrder ! 3)
   \<and> applyWordLayout wordOnlyGraph =
       Inr \<lparr>nodes = [plainNode (js ''w1'') (Some (js ''Word'')) 10 0 300], edges = []\<rparr>
   \<and> n_y (plainNode (js ''w1'') (Some (js ''Word'')) 10 0 300) = real 3 * 100
   \<and> applyRadialLayout exactOps wordOnlyGraph =
       Inr \<lparr>nodes = [plainNode (js ''w1'') (Some (js ''Word'')) 10 600 0], edges = []\<rparr>
   \<and> categoryKeys wordOnlyGraph 3 = [js ''w1'']
   \<and> (\<exists>i<length (categoryKeys wordOnlyGraph 3).
         n_x (plainNode (js ''w1'') (Some (js ''Word'')) 10 600 0)
           = js_mul exactOps (real 3 * 200)
               (fl_cos exactOps (fl_div exactOps
                  (js_mul exactOps (js_mul exactOps 2 (fl_pi exactOps)) (real i))
                  (real (length (categoryKeys wordOnlyGraph 3)))))
         \<and> n_y (plainNode (js ''w1'') (Some (js ''Word'')) 10 600 0)
           = js_mul exactOps (real 3 * 200)
               (fl_sin exactOps (fl_div exactOps
                  (js_mul exactOps (js_mul exactOps 2 (fl_pi exactOps)) (real i))
                  (real (length (categoryKeys wordOnlyGraph 3))))))"
proof -
  have safe: "\<forall>n\<in>set (nodes wordOnlyGraph). groupKey n \<notin> set objectPrototypeKeys"
    by (simp add: wordOnlyGraph_def layout_eval)
  have d: "distinct (map n_key (nodes wordOnlyGraph))" by (simp add: wordOnlyGraph_def)
  have t1: "nodeType (plainNode (js ''w1'') (Some (js ''Word'')) 10 0 300) = Some (typeOrder ! 3)"
    by (simp add: plainNode_def typeOrder_def)
  have t2: "nodeType (plainNode (js ''w1'') (Some (js ''Word'')) 10 600 0) = Some (typeOrder ! 3)"
    by (simp add: plainNode_def typeOrder_def)
  have k3: "categoryKeys wordOnlyGraph 3 = [js ''w1'']"
    by (simp add: categoryKeys_def wordOnlyGraph_def plainNode_def typeOrder_def js_def)
  from layout_level_is_index_in_typeOrder [OF safe d, of exactOps] obtain gb gr where
    gb: "applyWordLayout wordOnlyGraph = Inr gb"
    and gr: "applyRadialLayout exactOps wordOnlyGraph = Inr gr"
    and lev: "\<And>L. L < length typeOrder \<Longrightarrow>
        (\<forall>n'\<in>set (nodes gb). nodeType n' = Some (typeOrder ! L) \<longrightarrow> n_y n' = real L * 100)
      \<and> (\<forall>n'\<in>set (nodes gr). nodeType n' = Some (typeOrder ! L) \<longrightarrow>
           (\<exists>i<length (categoryKeys wordOnlyGraph L).
              n_key n' = categoryKeys wordOnlyGraph L ! i
              \<and> n_x n' = js_mul exactOps (real L * 200)
                  (fl_cos exactOps (fl_div exactOps
                     (js_mul exactOps (js_mul exactOps 2 (fl_pi exactOps)) (real i))
                     (real (length (categoryKeys wordOnlyGraph L)))))
              \<and> n_y n' = js_mul exactOps (real L * 200)
                  (fl_sin exactOps (fl_div exactOps
                     (js_mul exactOps (js_mul exactOps 2 (fl_pi exactOps)) (real i))
                     (real (length (categoryKeys wordOnlyGraph L)))))))"
    by blast
  have ob: "gb = \<lparr>nodes = [plainNode (js ''w1'') (Some (js ''Word'')) 10 0 300], edges = []\<rparr>"
    using gb applyWordLayout_wordOnlyGraph by simp
  have or: "gr = \<lparr>nodes = [plainNode (js ''w1'') (Some (js ''Word'')) 10 600 0], edges = []\<rparr>"
    using gr applyRadialLayout_wordOnlyGraph by simp
  have L3: "3 < length typeOrder" by simp
  have m1: "plainNode (js ''w1'') (Some (js ''Word'')) 10 0 300 \<in> set (nodes gb)"
    unfolding ob by simp
  have m2: "plainNode (js ''w1'') (Some (js ''Word'')) 10 600 0 \<in> set (nodes gr)"
    unfolding or by simp
  have y: "n_y (plainNode (js ''w1'') (Some (js ''Word'')) 10 0 300) = real 3 * 100"
    using lev [OF L3] m1 t1 by blast
  have x: "\<exists>i<length (categoryKeys wordOnlyGraph 3).
         n_x (plainNode (js ''w1'') (Some (js ''Word'')) 10 600 0)
           = js_mul exactOps (real 3 * 200)
               (fl_cos exactOps (fl_div exactOps
                  (js_mul exactOps (js_mul exactOps 2 (fl_pi exactOps)) (real i))
                  (real (length (categoryKeys wordOnlyGraph 3)))))
         \<and> n_y (plainNode (js ''w1'') (Some (js ''Word'')) 10 600 0)
           = js_mul exactOps (real 3 * 200)
               (fl_sin exactOps (fl_div exactOps
                  (js_mul exactOps (js_mul exactOps 2 (fl_pi exactOps)) (real i))
                  (real (length (categoryKeys wordOnlyGraph 3)))))"
    using lev [OF L3] m2 t2 by blast
  show ?thesis
    using d t1 applyWordLayout_wordOnlyGraph y applyRadialLayout_wordOnlyGraph k3 x
    by (intro conjI) assumption+
qed

section \<open>Node ids\<close>

text \<open>
  C3, as stated: a node record whose id does not coerce to a non-empty string is rejected.
  The code has no such check: \<^verbatim>\<open>String(node.id)\<close> is used as it is.  The record
  \<^verbatim>\<open>{id: ""}\<close> coerces to the empty string and is added as the node with the empty key.
\<close>

theorem empty_id_is_not_rejected:
  "String_of (JString []) = []
   \<and> buildGraphFromData exactOps noSettings originLayout emptyIdData False =
       Inr \<lparr>nodes = [plainNode [] None 10 0 0], edges = []\<rparr>
   \<and> n_key (plainNode [] None 10 0 0) = []"
  by (simp add: build_emptyIdData plainNode_def)

text \<open>
  C3, amended: no node record is rejected for its id.  The id is coerced with
  \<^verbatim>\<open>String\<close> and not validated (an absent id becomes "undefined", null becomes "null",
  the empty string stays empty); whenever the build completes on a non-empty node list,
  the keys of the output nodes are exactly the coerced ids of all the records, so a
  record is skipped only when an earlier record has the same coerced id.
\<close>

theorem node_ids_are_coerced_never_rejected:
  assumes "data_nodes d = Some ns" and "ns \<noteq> []"
    and "buildGraphFromData fl inferSettings layout d w = Inr g"
  shows "set (map n_key (nodes g)) = String_of ` node_id ` set ns"
proof -
  have "map n_key (map withoutPosition (nodes g)) = map n_key (nodes g)"
    by (simp add: withoutPosition_def comp_def)
  then have "map n_key (nodes g) = map n_key (nodes (nodePass ns))"
    using buildGraphFromData_nodes [OF assms] by simp
  then show ?thesis
    by (simp only: nodePass_def addNodes_emptyGraph_keys)
qed

text \<open>The amended statement at the record with the empty id.\<close>

theorem node_ids_are_coerced_never_rejected_witness:
  "data_nodes emptyIdData = Some [rawNode (JString []) None]
   \<and> buildGraphFromData exactOps noSettings originLayout emptyIdData False =
       Inr \<lparr>nodes = [plainNode [] None 10 0 0], edges = []\<rparr>
   \<and> set (map n_key (nodes \<lparr>nodes = [plainNode [] None 10 0 0], edges = []\<rparr>))
       = String_of ` node_id ` set [rawNode (JString []) None]"
proof -
  have n: "data_nodes emptyIdData = Some [rawNode (JString []) None]"
    by (simp add: emptyIdData_def)
  have ne: "[rawNode (JString []) None] \<noteq> []" by simp
  show ?thesis
    using node_ids_are_coerced_never_rejected [OF n ne build_emptyIdData] n build_emptyIdData
    by simp
qed

section \<open>Acceptance of edge records\<close>

text \<open>
  C4, as stated: a record is accepted if and only if it passes the five listed checks.
  The loop has two more: the edge id must be a string, and \<^verbatim>\<open>addEdgeWithKey\<close> must not
  throw.  The record \<^verbatim>\<open>{id: 7, source: "a", target: "b"}\<close>, with nodes "a" and "b" present and
  nothing accepted before, passes the five checks and is skipped.
\<close>

theorem numeric_edge_id_is_rejected:
  "listedEdgeChecks twoNodes []
     (EdgeObject (rawEdge (JNumber 7) (JString (js ''a'')) (JString (js ''b''))))
   \<and> data_edges numericEdgeIdData =
       Some [EdgeObject (rawEdge (JNumber 7) (JString (js ''a'')) (JString (js ''b'')))]
   \<and> buildGraphFromData exactOps noSettings originLayout numericEdgeIdData False = Inr twoNodes
   \<and> edges twoNodes = []"
proof -
  have "listedEdgeChecks twoNodes []
     (EdgeObject (rawEdge (JNumber 7) (JString (js ''a'')) (JString (js ''b''))))"
    by (simp add: listedEdgeChecks_def twoNodes_def rawEdge_def hasNode_def plainNode_def
        trim_def isWhiteSpace_def js_def)
  moreover have "data_edges numericEdgeIdData =
       Some [EdgeObject (rawEdge (JNumber 7) (JString (js ''a'')) (JString (js ''b'')))]"
    by (simp add: numericEdgeIdData_def)
  moreover have "edges twoNodes = []" by (simp add: twoNodes_def)
  ultimately show ?thesis using build_numericEdgeIdData by simp
qed

text \<open>
  C4, amended: the records are processed one by one in their original order, each in the
  state left by the records before it.  A record is accepted if and only if it is an
  object, its source and target are truthy, both are non-empty after coercion and
  trimming, the key \<^verbatim>\<open>source\<rightarrow>target\<close> is not the key of an edge accepted before, both
  name nodes of the graph, its edge id (the explicit id if truthy, else the synthesized
  one) is a non-empty string, and no accepted edge has that id.  Whatever the outcome,
  the loop goes on with the next record and the node set is unchanged; a record that is
  not accepted adds no edge.
\<close>

theorem edge_accepted_iff_all_checks:
  assumes "edges g = []" and "i < length es"
  shows "(accepted fl dense (i, es ! i) (edgeLoop fl dense es i g) \<longleftrightarrow>
          (\<exists>r s t eid. es ! i = EdgeObject r
             \<and> truthy (edge_source r) \<and> truthy (edge_target r)
             \<and> s = trim (String_of (edge_source r)) \<and> t = trim (String_of (edge_target r))
             \<and> s \<noteq> [] \<and> t \<noteq> []
             \<and> edgeKey s t \<notin> pairKey ` set (edges (es_graph (edgeLoop fl dense es i g)))
             \<and> hasNode g s \<and> hasNode g t
             \<and> edgeId r s t i = JString eid \<and> eid \<noteq> []
             \<and> eid \<notin> e_key ` set (edges (es_graph (edgeLoop fl dense es i g)))))
       \<and> edgeLoop fl dense es (Suc i) g = processEdge fl dense (i, es ! i) (edgeLoop fl dense es i g)
       \<and> nodes (es_graph (edgeLoop fl dense es (Suc i) g)) = nodes g
       \<and> (\<not> accepted fl dense (i, es ! i) (edgeLoop fl dense es i g) \<longrightarrow>
            edges (es_graph (edgeLoop fl dense es (Suc i) g)) = edges (es_graph (edgeLoop fl dense es i g)))"
proof (intro conjI impI)
  let ?st = "edgeLoop fl dense es i g"
  have inv: "addedEdges ?st = pairKey ` set (edges (es_graph ?st))"
    using edgeLoop_loopInv [OF assms(1)] by (simp add: loopInv_def)
  show "accepted fl dense (i, es ! i) ?st \<longleftrightarrow>
          (\<exists>r s t eid. es ! i = EdgeObject r
             \<and> truthy (edge_source r) \<and> truthy (edge_target r)
             \<and> s = trim (String_of (edge_source r)) \<and> t = trim (String_of (edge_target r))
             \<and> s \<noteq> [] \<and> t \<noteq> []
             \<and> edgeKey s t \<notin> pairKey ` set (edges (es_graph ?st))
             \<and> hasNode g s \<and> hasNode g t
             \<and> edgeId r s t i = JString eid \<and> eid \<noteq> []
             \<and> eid \<notin> e_key ` set (edges (es_graph ?st)))"
    unfolding accepted_iff
    by (cases "es ! i") (auto simp: inv split: jsval.splits)
  show step: "edgeLoop fl dense es (Suc i) g = processEdge fl dense (i, es ! i) ?st"
    by (rule edgeLoop_Suc [OF assms(2)])
  show "nodes (es_graph (edgeLoop fl dense es (Suc i) g)) = nodes g" by simp
  assume "\<not> accepted fl dense (i, es ! i) ?st"
  then have "\<not> passesAllChecks (i, es ! i) ?st" by (simp add: accepted_iff)
  from processEdge_not_accept [OF this, of fl dense]
  show "edges (es_graph (edgeLoop fl dense es (Suc i) g)) = edges (es_graph ?st)"
    by (simp add: step)
qed

text \<open>Record 1 of the example is accepted; record 3, with the numeric id 7, is not.\<close>

theorem edge_accepted_iff_all_checks_witness:
  "edges twoNodes = [] \<and> 3 < length exampleEdges
   \<and> accepted exactOps False (1, exampleEdges ! 1) (edgeLoop exactOps False exampleEdges 1 twoNodes)
   \<and> \<not> accepted exactOps False (3, exampleEdges ! 3) (edgeLoop exactOps False exampleEdges 3 twoNodes)
   \<and> nodes (es_graph (edgeLoop exactOps False exampleEdges (Suc 3) twoNodes)) = nodes twoNodes"
proof -
  have e0: "edges twoNodes = []" by (simp add: twoNodes_def)
  have l1: "1 < length exampleEdges" and l3: "3 < length exampleEdges"
    by (simp_all add: exampleEdges_def)
  let ?r1 = "rawEdge JUndefined (JString (js '' a'')) (JString (js ''b''))"
  have "exampleEdges ! 1 = EdgeObject ?r1
      \<and> truthy (edge_source ?r1) \<and> truthy (edge_target ?r1)
      \<and> js ''a'' = trim (String_of (edge_source ?r1)) \<and> js ''b'' = trim (String_of (edge_target ?r1))
      \<and> js ''a'' \<noteq> [] \<and> js ''b'' \<noteq> []
      \<and> edgeKey (js ''a'') (js ''b'') \<notin> pairKey ` set (edges (es_graph (edgeLoop exactOps False exampleEdges 1 twoNodes)))
      \<and> hasNode twoNodes (js ''a'') \<and> hasNode twoNodes (js ''b'')
      \<and> edgeId ?r1 (js ''a'') (js ''b'') 1 = JString (js ''edge-a-b-1'') \<and> js ''edge-a-b-1'' \<noteq> []
      \<and> js ''edge-a-b-1'' \<notin> e_key ` set (edges (es_graph (edgeLoop exactOps False exampleEdges 1 twoNodes)))"
    unfolding exampleEdges_state1
    by (simp add: exampleEdges_def twoNodes_def rawEdge_def plainNode_def hasNode_def edgeId_def
        trim_def isWhiteSpace_def js_def digits.simps)
  then have rhs1: "\<exists>r s t eid. exampleEdges ! 1 = EdgeObject r
             \<and> truthy (edge_source r) \<and> truthy (edge_target r)
             \<and> s = trim (String_of (edge_source r)) \<and> t = trim (String_of (edge_target r))
             \<and> s \<noteq> [] \<and> t \<noteq> []
             \<and> edgeKey s t \<notin> pairKey ` set (edges (es_graph (edgeLoop exactOps False exampleEdges 1 twoNodes)))
             \<and> hasNode twoNodes s \<and> hasNode twoNodes t
             \<and> edgeId r s t 1 = JString eid \<and> eid \<noteq> []
             \<and> eid \<notin> e_key ` set (edges (es_graph (edgeLoop exactOps False exampleEdges 1 twoNodes)))"
    by blast
  have acc1: "accepted exactOps False (1, exampleEdges ! 1) (edgeLoop exactOps False exampleEdges 1 twoNodes)"
    using edge_accepted_iff_all_checks [OF e0 l1, of exactOps False] rhs1 by blast
  have "\<not> (\<exists>r s t eid. exampleEdges ! 3 = EdgeObject r
             \<and> truthy (edge_source r) \<and> truthy (edge_target r)
             \<and> s = trim (String_of (edge_source r)) \<and> t = trim (String_of (edge_target r))
             \<and> s \<noteq> [] \<and> t \<noteq> []
             \<and> edgeKey s t \<notin> pairKey ` set (edges (es_graph (edgeLoop exactOps False exampleEdges 3 twoNodes)))
             \<and> hasNode twoNodes s \<and> hasNode twoNodes t
             \<and> edgeId r s t 3 = JString eid \<and> eid \<noteq> []
             \<and> eid \<notin> e_key ` set (edges (es_graph (edgeLoop exactOps False exampleEdges 3 twoNodes))))"
    by (auto simp: exampleEdges_def rawEdge_def edgeId_def)
  then have acc3: "\<not> accepted exactOps False (3, exampleEdges ! 3) (edgeLoop exactOps False exampleEdges 3 twoNodes)"
    using edge_accepted_iff_all_checks [OF e0 l3, of exactOps False] by blast
  have "nodes (es_graph (edgeLoop exactOps False exampleEdges (Suc 3) twoNodes)) = nodes twoNodes"
    using edge_accepted_iff_all_checks [OF e0 l3, of exactOps False] by blast
  with e0 l3 acc1 acc3 show ?thesis by simp
qed

section \<open>Duplicate edges\<close>

text \<open>
  C5, as stated, speaks of any edge list with two records of the same ordered pair.  A
  pair is remembered only once an edge with it has been added: two records
  \<^verbatim>\<open>(a, zzz)\<close> with no node \<^verbatim>\<open>zzz\<close> are both dropped as dangling, no edge survives and the
  duplicate counter stays 0.
\<close>

theorem dangling_pair_twice_leaves_no_edge:
  "edgeEndpoints (the (data_edges danglingTwiceData) ! 0) = Some (js ''a'', js ''zzz'')
   \<and> edgeEndpoints (the (data_edges danglingTwiceData) ! 1) = Some (js ''a'', js ''zzz'')
   \<and> constructGraph exactOps danglingTwiceData False =
       Inr (\<lparr>nodes = [plainNode (js ''a'') None 10 0 0], edges = []\<rparr>, 0)"
proof -
  have "edgeEndpoints (the (data_edges danglingTwiceData) ! 0) = Some (js ''a'', js ''zzz'')"
    "edgeEndpoints (the (data_edges danglingTwiceData) ! 1) = Some (js ''a'', js ''zzz'')"
    by (simp_all add: danglingTwiceData_def rawEdge_def trim_def isWhiteSpace_def js_def)
  then show ?thesis using constructGraph_danglingTwiceData by simp
qed

text \<open>
  C5, amended: if record \<open>i\<close> is accepted, then every later record \<open>j\<close> with the same
  ordered pair of trimmed source and target is dropped, whatever its id or type, and
  raises the duplicate counter by exactly 1; the final graph has exactly one edge with
  that source and target, the one built from record \<open>i\<close>.
\<close>

theorem first_accepted_pair_wins:
  assumes "edges g = []" and "i < j" and "j < length es"
    and "accepted fl dense (i, es ! i) (edgeLoop fl dense es i g)"
    and "edgeEndpoints (es ! j) = edgeEndpoints (es ! i)"
  shows "\<exists>r s t eid. es ! i = EdgeObject r \<and> edgeEndpoints (es ! i) = Some (s, t)
           \<and> edgeId r s t i = JString eid
           \<and> filter (\<lambda>e. e_source e = s \<and> e_target e = t) (edges (es_graph (addEdges fl dense es g)))
               = [makeEdge fl dense r eid s t]
           \<and> \<not> accepted fl dense (j, es ! j) (edgeLoop fl dense es j g)
           \<and> es_graph (edgeLoop fl dense es (Suc j) g) = es_graph (edgeLoop fl dense es j g)
           \<and> duplicateCount (edgeLoop fl dense es (Suc j) g) = duplicateCount (edgeLoop fl dense es j g) + 1"
proof -
  let ?sti = "edgeLoop fl dense es i g" and ?stj = "edgeLoop fl dense es j g"
  have i: "i < length es" using assms(2,3) by simp
  from assms(4) have pass: "passesAllChecks (i, es ! i) ?sti" by (simp add: accepted_iff)
  then obtain r where r: "es ! i = EdgeObject r" by (cases "es ! i") simp_all
  let ?s = "trim (String_of (edge_source r))" and ?t = "trim (String_of (edge_target r))"
  from pass have ends: "edgeEndpoints (es ! i) = Some (?s, ?t)" by (simp add: r)
  from processEdge_accept [OF pass [unfolded r], of fl dense] obtain eid where
    eid: "edgeId r ?s ?t i = JString eid"
    and step: "processEdge fl dense (i, EdgeObject r) ?sti =
       ?sti\<lparr>es_graph := (es_graph ?sti)\<lparr>edges := edges (es_graph ?sti) @ [makeEdge fl dense r eid ?s ?t]\<rparr>,
             addedEdges := insert (edgeKey ?s ?t) (addedEdges ?sti)\<rparr>"
    by blast
  have suc: "edgeLoop fl dense es (Suc i) g = processEdge fl dense (i, EdgeObject r) ?sti"
    using edgeLoop_Suc [OF i] r by simp
  have key_i: "edgeKey ?s ?t \<in> addedEdges (edgeLoop fl dense es (Suc i) g)"
    and edge_i: "makeEdge fl dense r eid ?s ?t \<in> set (edges (es_graph (edgeLoop fl dense es (Suc i) g)))"
    unfolding suc step by simp_all
  have "Suc i \<le> j" using assms(2) by simp
  from edgeLoop_grows [OF this] key_i have key_j: "edgeKey ?s ?t \<in> addedEdges ?stj" by blast
  have dup: "processEdge fl dense (j, es ! j) ?stj = ?stj\<lparr>duplicateCount := duplicateCount ?stj + 1\<rparr>"
    by (rule processEdge_duplicate [OF _ key_j]) (simp add: assms(5) ends)
  have sucj: "edgeLoop fl dense es (Suc j) g = ?stj\<lparr>duplicateCount := duplicateCount ?stj + 1\<rparr>"
    using edgeLoop_Suc [OF assms(3)] dup by simp
  have notacc: "\<not> accepted fl dense (j, es ! j) ?stj"
    by (simp add: accepted_def dup)
  let ?final = "edges (es_graph (addEdges fl dense es g))"
  have "Suc i \<le> length es" using i by simp
  from edgeLoop_grows [OF this] edge_i have mem: "makeEdge fl dense r eid ?s ?t \<in> set ?final"
    unfolding edgeLoop_all by blast
  have "distinct (map pairKey ?final)"
    using edgeLoop_loopInv [OF assms(1)] by (simp add: loopInv_def edgeLoop_all)
  then have d: "distinct (map pairKey (filter (\<lambda>e. e_source e = ?s \<and> e_target e = ?t) ?final))"
    by (rule distinct_map_filter)
  have c: "\<forall>e\<in>set (filter (\<lambda>e. e_source e = ?s \<and> e_target e = ?t) ?final). pairKey e = edgeKey ?s ?t"
    by (simp add: pairKey_def)
  have m: "makeEdge fl dense r eid ?s ?t \<in> set (filter (\<lambda>e. e_source e = ?s \<and> e_target e = ?t) ?final)"
    using mem by (simp add: makeEdge_def)
  have one: "filter (\<lambda>e. e_source e = ?s \<and> e_target e = ?t) ?final = [makeEdge fl dense r eid ?s ?t]"
    by (rule single_of_distinct_constant [OF d c m])
  show ?thesis
    using r ends eid one notacc sucj by simp
qed

text \<open>Records 1 and 2 of the example have the pair (a, b) after trimming and different
  ids and types.\<close>

theorem first_accepted_pair_wins_witness:
  "edges twoNodes = []
   \<and> accepted exactOps False (1, exampleEdges ! 1) (edgeLoop exactOps False exampleEdges 1 twoNodes)
   \<and> edgeEndpoints (exampleEdges ! 2) = edgeEndpoints (exampleEdges ! 1)
   \<and> edge_id (rawEdge JUndefined (JString (js '' a'')) (JString (js ''b''))) \<noteq>
       edge_id ((rawEdge (JString (js ''x1'')) (JString (js ''a'')) (JString (js ''b '')))
                    \<lparr>edge_type := Some (js ''PART_OF'')\<rparr>)
   \<and> filter (\<lambda>e. e_source e = js ''a'' \<and> e_target e = js ''b'')
        (edges (es_graph (addEdges exactOps False exampleEdges twoNodes)))
       = [plainEdge (js ''edge-a-b-1'') (js ''a'') (js ''b'') 2]
   \<and> duplicateCount (edgeLoop exactOps False exampleEdges (Suc 2) twoNodes)
       = duplicateCount (edgeLoop exactOps False exampleEdges 2 twoNodes) + 1"
proof -
  have e0: "edges twoNodes = []" by (simp add: twoNodes_def)
  have ij: "(1::nat) < 2" and j: "2 < length exampleEdges" by (simp_all add: exampleEdges_def)
  have acc: "accepted exactOps False (1, exampleEdges ! 1) (edgeLoop exactOps False exampleEdges 1 twoNodes)"
    unfolding accepted_def exampleEdges_state1
    by (simp add: exampleEdges_def twoNodes_def rawEdge_def plainNode_def hasNode_def edgeId_def
        addEdgeWithKey_def makeEdge_def trim_def isWhiteSpace_def js_def digits.simps Let_def)
  have same: "edgeEndpoints (exampleEdges ! 2) = edgeEndpoints (exampleEdges ! 1)"
    by (simp add: exampleEdges_def rawEdge_def trim_def isWhiteSpace_def js_def)
  have ids: "edge_id (rawEdge JUndefined (JString (js '' a'')) (JString (js ''b''))) \<noteq>
       edge_id ((rawEdge (JString (js ''x1'')) (JString (js ''a'')) (JString (js ''b '')))
                    \<lparr>edge_type := Some (js ''PART_OF'')\<rparr>)"
    by (simp add: rawEdge_def)
  have fin: "filter (\<lambda>e. e_source e = js ''a'' \<and> e_target e = js ''b'')
        (edges (es_graph (addEdges exactOps False exampleEdges twoNodes)))
       = [plainEdge (js ''edge-a-b-1'') (js ''a'') (js ''b'') 2]"
    unfolding exampleEdges_final by (simp add: plainEdge_def)
  from first_accepted_pair_wins [OF e0 ij j acc same]
  have "duplicateCount (edgeLoop exactOps False exampleEdges (Suc 2) twoNodes)
       = duplicateCount (edgeLoop exactOps False exampleEdges 2 twoNodes) + 1"
    by blast
  with e0 acc same ids fin show ?thesis by simp
qed

section \<open>Duplicate node ids\<close>

text \<open>
  C6, as stated, speaks of any raw node list.  For the empty list the output has one node,
  the placeholder, and there is no id at all.
\<close>

theorem empty_list_gives_one_node:
  "data_nodes emptyData = Some []
   \<and> buildGraphFromData exactOps noSettings originLayout emptyData False =
       Inr (assign originLayout (overviewPreset ()) placeholderGraph)
   \<and> length (nodes (assign originLayout (overviewPreset ()) placeholderGraph)) = 1
   \<and> card (String_of ` node_id ` set ([] :: raw_node list)) = 0"
  by (simp add: emptyData_def buildGraphFromData_def constructGraph_def refinementCall_def
      addNode_def emptyGraph_def placeholderGraph_def noSettings_def assign_def)

text \<open>
  C6, amended: for every non-empty raw node list on which the build completes, the number
  of output nodes is the number of distinct ids (as coerced by \<^verbatim>\<open>String\<close>), and each output
  node has the label, size, color, properties and type derived from the first record of
  the list with its id (\<open>find\<close> returns the first match), never from a later one.
\<close>

theorem first_record_of_an_id_wins:
  assumes "data_nodes d = Some ns" and "ns \<noteq> []"
    and "buildGraphFromData fl inferSettings layout d w = Inr g"
  shows "length (nodes g) = card (String_of ` node_id ` set ns)
       \<and> (\<forall>n\<in>set (nodes g).
            \<exists>r. find (\<lambda>r. String_of (node_id r) = n_key n) ns = Some r
              \<and> n_label n = nodeLabel (sectionIdMapOf ns) r
              \<and> n_size n = dynamicSize r
              \<and> n_color n = or_string (node_color r) (js ''#64748b'')
              \<and> n_properties n = Some (case node_properties r of None \<Rightarrow> [] | Some p \<Rightarrow> p)
              \<and> nodeType n = node_type r)"
proof (intro conjI ballI)
  have frame: "map withoutPosition (nodes g) = nodes (nodePass ns)"
    by (rule buildGraphFromData_nodes [OF assms])
  have "length (nodes g) = length (map withoutPosition (nodes g))" by simp
  also have "\<dots> = card (String_of ` node_id ` set ns)"
    unfolding frame nodePass_def by (rule addNodes_emptyGraph_length)
  finally show "length (nodes g) = card (String_of ` node_id ` set ns)" .
next
  fix n assume "n \<in> set (nodes g)"
  then have "withoutPosition n \<in> set (map withoutPosition (nodes g))" by simp
  then have "withoutPosition n \<in> set (nodes (addNodes (sectionIdMapOf ns) ns emptyGraph))"
    using buildGraphFromData_nodes [OF assms] by (simp add: nodePass_def)
  from addNodes_emptyGraph_first [OF this] obtain r where
    r: "find (\<lambda>r. String_of (node_id r) = n_key (withoutPosition n)) ns = Some r"
      "withoutPosition n = makeNode (sectionIdMapOf ns) r"
    by blast
  have "withoutPosition n = withoutPosition (makeNode (sectionIdMapOf ns) r)"
    using r(2) by simp
  from withoutPosition_fields [OF this] r(1)
  show "\<exists>r. find (\<lambda>r. String_of (node_id r) = n_key n) ns = Some r
              \<and> n_label n = nodeLabel (sectionIdMapOf ns) r
              \<and> n_size n = dynamicSize r
              \<and> n_color n = or_string (node_color r) (js ''#64748b'')
              \<and> n_properties n = Some (case node_properties r of None \<Rightarrow> [] | Some p \<Rightarrow> p)
              \<and> nodeType n = node_type r"
    by (simp add: makeNode_def withoutPosition_def)
qed

text \<open>Two records with id "a" and one with the numeric id 7: two nodes, and node "a"
  is the one of the first record.\<close>

theorem first_record_of_an_id_wins_witness:
  "buildGraphFromData exactOps noSettings originLayout duplicateIdData False =
     Inr \<lparr>nodes = [(plainNode (js ''a'') (Some (js ''Word'')) 10 0 0)\<lparr>n_label := js ''first''\<rparr>,
                   plainNode [55] None 10 0 0],
          edges = []\<rparr>
   \<and> length [(plainNode (js ''a'') (Some (js ''Word'')) 10 0 0)\<lparr>n_label := js ''first''\<rparr>,
              plainNode [55] None 10 0 0]
       = card (String_of ` node_id ` set (the (data_nodes duplicateIdData)))
   \<and> find (\<lambda>r. String_of (node_id r) = js ''a'') (the (data_nodes duplicateIdData))
       = Some ((rawNode (JString (js ''a'')) (Some (js ''Word'')))\<lparr>node_label := Some (js ''first'')\<rparr>)"
proof -
  have n: "data_nodes duplicateIdData = Some (the (data_nodes duplicateIdData))"
    by (simp add: duplicateIdData_def)
  have ne: "the (data_nodes duplicateIdData) \<noteq> []" by (simp add: duplicateIdData_def)
  have f: "find (\<lambda>r. String_of (node_id r) = js ''a'') (the (data_nodes duplicateIdData))
       = Some ((rawNode (JString (js ''a'')) (Some (js ''Word'')))\<lparr>node_label := Some (js ''first'')\<rparr>)"
    by (simp add: duplicateIdData_def rawNode_def js_def)
  show ?thesis
    using first_record_of_an_id_wins [OF n ne build_duplicateIdData] build_duplicateIdData f
    by simp
qed

section \<open>Display labels\<close>

text \<open>
  C7, as stated: a node that is not a Section displays its explicit label field, or its id
  if the field is absent.  The code evaluates \<^verbatim>\<open>node.label || nodeId\<close>, so an explicit
  label that is the empty string is not displayed either: the Word record with label ""
  and id "w" is labelled "w".
\<close>

theorem empty_label_falls_back_to_id:
  "node_label (hd (the (data_nodes emptyLabelData))) = Some []
   \<and> node_type (hd (the (data_nodes emptyLabelData))) = Some (js ''Word'')
   \<and> buildGraphFromData exactOps noSettings originLayout emptyLabelData False =
       Inr \<lparr>nodes = [plainNode (js ''w'') (Some (js ''Word'')) 10 0 0], edges = []\<rparr>
   \<and> n_label (plainNode (js ''w'') (Some (js ''Word'')) 10 0 0) = js ''w''
   \<and> n_label (plainNode (js ''w'') (Some (js ''Word'')) 10 0 0) \<noteq> []"
proof -
  have "node_label (hd (the (data_nodes emptyLabelData))) = Some []"
    "node_type (hd (the (data_nodes emptyLabelData))) = Some (js ''Word'')"
    by (simp_all add: emptyLabelData_def rawNode_def)
  moreover have "n_label (plainNode (js ''w'') (Some (js ''Word'')) 10 0 0) = js ''w''"
    "n_label (plainNode (js ''w'') (Some (js ''Word'')) 10 0 0) \<noteq> []"
    by (simp_all add: plainNode_def js_def)
  ultimately show ?thesis using build_emptyLabelData by simp
qed

text \<open>When no Section id is shadowed, each numbered id is the key of an output node of
  type Section that displays the number.\<close>

lemma numbered_section_node:
  assumes nodes: "map withoutPosition (nodes g) = nodes (nodePass ns)"
    and H: "noShadowedSection ns"
    and i: "i < length (sectionOrder ns)"
  shows "\<exists>n\<in>set (nodes g). nodeType n = Some (js ''Section'')
           \<and> n_key n = sectionOrder ns ! i \<and> n_label n = digits (i + 1)"
proof -
  let ?k = "sectionOrder ns ! i"
  have "?k \<in> set (sectionOrder ns)" using i by simp
  then obtain r where r: "r \<in> set ns" "node_type r = Some (js ''Section'')"
    "String_of (node_id r) = ?k"
    unfolding set_sectionOrder by auto
  from H r(1,2) obtain q where
    q: "find (\<lambda>q. String_of (node_id q) = String_of (node_id r)) ns = Some q"
      "node_type q = Some (js ''Section'')"
    unfolding noShadowedSection_def by blast
  have "?k \<in> set (map n_key (nodes (addNodes (sectionIdMapOf ns) ns emptyGraph)))"
    unfolding addNodes_emptyGraph_keys using r(1,3) by force
  then obtain n0 where n0: "n0 \<in> set (nodes (nodePass ns))" "n_key n0 = ?k"
    unfolding nodePass_def by auto
  from addNodes_emptyGraph_first [OF n0(1) [unfolded nodePass_def]] obtain r0 where
    r0: "find (\<lambda>r. String_of (node_id r) = n_key n0) ns = Some r0"
      "n0 = makeNode (sectionIdMapOf ns) r0"
    by blast
  have "r0 = q" using r0(1) q(1) n0(2) r(3) by simp
  have idq: "String_of (node_id q) = ?k"
    using q(1) r(3) by (auto simp: find_Some_iff)
  have "sectionIdMapOf ns (String_of (node_id q)) = Some (i + 1)"
    using sectionIdMapOf_order [OF i] idq by simp
  then have lab: "n_label n0 = digits (i + 1)" "nodeType n0 = Some (js ''Section'')"
    unfolding r0(2) \<open>r0 = q\<close> using q(2) by (simp_all add: makeNode_def nodeLabel_def)
  from n0(1) have "n0 \<in> set (map withoutPosition (nodes g))" unfolding nodes .
  then obtain n where n: "n \<in> set (nodes g)" "withoutPosition n = n0" by auto
  have "withoutPosition n = withoutPosition n0"
    using n(2) r0(2) by simp
  from withoutPosition_fields [OF this] show ?thesis using n(1) n0(2) lab by auto
qed

text \<open>An output node is built from the first record with its id.\<close>

lemma node_of_first_record:
  assumes nodes: "map withoutPosition (nodes g) = nodes (nodePass ns)"
    and n: "n \<in> set (nodes g)"
  shows "\<exists>r. find (\<lambda>r. String_of (node_id r) = n_key n) ns = Some r
           \<and> n_key n = String_of (node_id r)
           \<and> n_label n = nodeLabel (sectionIdMapOf ns) r
           \<and> nodeType n = node_type r"
proof -
  from n have "withoutPosition n \<in> set (map withoutPosition (nodes g))" by simp
  then have "withoutPosition n \<in> set (nodes (addNodes (sectionIdMapOf ns) ns emptyGraph))"
    using nodes by (simp add: nodePass_def)
  from addNodes_emptyGraph_first [OF this] obtain r where
    r: "find (\<lambda>r. String_of (node_id r) = n_key (withoutPosition n)) ns = Some r"
      "withoutPosition n = makeNode (sectionIdMapOf ns) r"
    by blast
  have "withoutPosition n = withoutPosition (makeNode (sectionIdMapOf ns) r)"
    using r(2) by simp
  from withoutPosition_fields [OF this]
  have f: "n_key n = String_of (node_id r)" "n_label n = nodeLabel (sectionIdMapOf ns) r"
    "nodeType n = node_type r"
    by (simp_all add: makeNode_def)
  moreover have "find (\<lambda>r. String_of (node_id r) = n_key n) ns = Some r"
    using r(1) by (simp add: withoutPosition_def)
  ultimately show ?thesis by blast
qed

text \<open>
  C7, amended: provided that no Section record has an id that a record of another type
  used first, the Section nodes of the output display "1".."N", \<open>N\<close> the number of distinct
  Section ids, in the order in which the ids first appear in the raw node sequence
  (\<open>sectionOrder\<close>): the keys of the Section nodes are exactly these ids, the id at position
  \<open>i\<close> (0-based) is the key of a Section node labelled \<open>i + 1\<close> in decimal, whatever its
  explicit label, and no Section node displays anything else.  Every other node displays
  its explicit label if that is a non-empty string, and its id otherwise.
\<close>

theorem section_labels_follow_first_appearance:
  assumes "data_nodes d = Some ns" and "ns \<noteq> []"
    and "buildGraphFromData fl inferSettings layout d w = Inr g"
  shows "distinct (sectionOrder ns)
       \<and> set (sectionOrder ns) =
           String_of ` node_id ` {r \<in> set ns. node_type r = Some (js ''Section'')}
       \<and> (noShadowedSection ns \<longrightarrow>
             n_key ` {n \<in> set (nodes g). nodeType n = Some (js ''Section'')}
               = set (sectionOrder ns)
           \<and> (\<forall>i<length (sectionOrder ns).
                 \<exists>n\<in>set (nodes g). nodeType n = Some (js ''Section'')
                   \<and> n_key n = sectionOrder ns ! i \<and> n_label n = digits (i + 1))
           \<and> (\<forall>n\<in>set (nodes g). nodeType n = Some (js ''Section'') \<longrightarrow>
                 (\<exists>i<length (sectionOrder ns).
                    n_key n = sectionOrder ns ! i \<and> n_label n = digits (i + 1))))
       \<and> (\<forall>n\<in>set (nodes g). nodeType n \<noteq> Some (js ''Section'') \<longrightarrow>
             (\<exists>r. find (\<lambda>r. String_of (node_id r) = n_key n) ns = Some r
                \<and> n_label n = or_string (node_label r) (n_key n)))"
proof -
  have nodes: "map withoutPosition (nodes g) = nodes (nodePass ns)"
    using buildGraphFromData_nodes [OF assms] .
  have ranked: "\<exists>i<length (sectionOrder ns). n_key n = sectionOrder ns ! i \<and> n_label n = digits (i + 1)"
    if n: "n \<in> set (nodes g)" and ty: "nodeType n = Some (js ''Section'')" for n
  proof -
    from node_of_first_record [OF nodes n] obtain r where
      r: "find (\<lambda>r. String_of (node_id r) = n_key n) ns = Some r"
      and f: "n_key n = String_of (node_id r)" "n_label n = nodeLabel (sectionIdMapOf ns) r"
        "nodeType n = node_type r"
      by blast
    have "r \<in> set ns" using r by (auto simp: find_Some_iff in_set_conv_nth)
    then have "n_key n \<in> set (sectionOrder ns)"
      using f(1,3) ty by (simp add: set_sectionOrder)
    then obtain i where i: "i < length (sectionOrder ns)" "sectionOrder ns ! i = n_key n"
      unfolding in_set_conv_nth by blast
    have "sectionIdMapOf ns (String_of (node_id r)) = Some (i + 1)"
      using sectionIdMapOf_order [OF i(1)] i(2) f(1) by simp
    then have "n_label n = digits (i + 1)"
      using f(2,3) ty by (simp add: nodeLabel_def)
    then show ?thesis using i by metis
  qed
  have plain: "\<exists>r. find (\<lambda>r. String_of (node_id r) = n_key n) ns = Some r
                \<and> n_label n = or_string (node_label r) (n_key n)"
    if n: "n \<in> set (nodes g)" and ty: "nodeType n \<noteq> Some (js ''Section'')" for n
  proof -
    from node_of_first_record [OF nodes n] obtain r where
      r: "find (\<lambda>r. String_of (node_id r) = n_key n) ns = Some r"
      and f: "n_key n = String_of (node_id r)" "n_label n = nodeLabel (sectionIdMapOf ns) r"
        "nodeType n = node_type r"
      by blast
    have "n_label n = or_string (node_label r) (n_key n)"
      using f ty by (simp add: nodeLabel_def)
    with r show ?thesis by blast
  qed
  have numbered: "\<exists>n\<in>set (nodes g). nodeType n = Some (js ''Section'')
                   \<and> n_key n = sectionOrder ns ! i \<and> n_label n = digits (i + 1)"
    if "noShadowedSection ns" "i < length (sectionOrder ns)" for i
    using numbered_section_node [OF nodes that] .
  have keys: "n_key ` {n \<in> set (nodes g). nodeType n = Some (js ''Section'')}
               = set (sectionOrder ns)"
    if H: "noShadowedSection ns"
  proof (intro equalityI subsetI)
    fix k assume "k \<in> n_key ` {n \<in> set (nodes g). nodeType n = Some (js ''Section'')}"
    then obtain n where "n \<in> set (nodes g)" "nodeType n = Some (js ''Section'')" "k = n_key n"
      by auto
    with ranked [of n] show "k \<in> set (sectionOrder ns)" by auto
  next
    fix k assume "k \<in> set (sectionOrder ns)"
    then obtain i where "i < length (sectionOrder ns)" "sectionOrder ns ! i = k"
      unfolding in_set_conv_nth by blast
    with numbered [OF H, of i] obtain n where
      "n \<in> set (nodes g)" "nodeType n = Some (js ''Section'')" "n_key n = k"
      by auto
    then have "n \<in> {n \<in> set (nodes g). nodeType n = Some (js ''Section'')}" by simp
    then have "n_key n \<in> n_key ` {n \<in> set (nodes g). nodeType n = Some (js ''Section'')}"
      by (rule imageI)
    then show "k \<in> n_key ` {n \<in> set (nodes g). nodeType n = Some (js ''Section'')}"
      using \<open>n_key n = k\<close> by simp
  qed
  have "distinct (sectionOrder ns)" by (simp add: sectionOrder_def)
  moreover have "set (sectionOrder ns) =
      String_of ` node_id ` {r \<in> set ns. node_type r = Some (js ''Section'')}"
    by (rule set_sectionOrder)
  moreover have "noShadowedSection ns \<longrightarrow>
             n_key ` {n \<in> set (nodes g). nodeType n = Some (js ''Section'')}
               = set (sectionOrder ns)
           \<and> (\<forall>i<length (sectionOrder ns).
                 \<exists>n\<in>set (nodes g). nodeType n = Some (js ''Section'')
                   \<and> n_key n = sectionOrder ns ! i \<and> n_label n = digits (i + 1))
           \<and> (\<forall>n\<in>set (nodes g). nodeType n = Some (js ''Section'') \<longrightarrow>
                 (\<exists>i<length (sectionOrder ns).
                    n_key n = sectionOrder ns ! i \<and> n_label n = digits (i + 1)))"
  proof (intro conjI allI impI ballI)
    assume H: "noShadowedSection ns"
    show "n_key ` {n \<in> set (nodes g). nodeType n = Some (js ''Section'')}
               = set (sectionOrder ns)"
      using keys [OF H] .
  next
    fix i assume H: "noShadowedSection ns" and "i < length (sectionOrder ns)"
    from this(2) show "\<exists>n\<in>set (nodes g). nodeType n = Some (js ''Section'')
                   \<and> n_key n = sectionOrder ns ! i \<and> n_label n = digits (i + 1)"
      by (rule numbered [OF H])
  next
    fix n assume "n \<in> set (nodes g)" "nodeType n = Some (js ''Section'')"
    then show "\<exists>i<length (sectionOrder ns).
                    n_key n = sectionOrder ns ! i \<and> n_label n = digits (i + 1)"
      by (rule ranked)
  qed
  moreover have "\<forall>n\<in>set (nodes g). nodeType n \<noteq> Some (js ''Section'') \<longrightarrow>
             (\<exists>r. find (\<lambda>r. String_of (node_id r) = n_key n) ns = Some r
                \<and> n_label n = or_string (node_label r) (n_key n))"
    using plain by (intro ballI impI)
  ultimately show ?thesis by (intro conjI) assumption+
qed

text \<open>Sections in the raw order s3, s1, s3, s2, the first with an explicit label: the
  labels are "1", "2", "3"; the node for s1, second to appear, is labelled "2".\<close>

theorem section_labels_follow_first_appearance_witness:
  "noShadowedSection (the (data_nodes sectionOrderData))
   \<and> sectionOrder (the (data_nodes sectionOrderData)) = [js ''s3'', js ''s1'', js ''s2'']
   \<and> buildGraphFromData exactOps noSettings originLayout sectionOrderData True =
     Inr \<lparr>nodes = [(plainNode (js ''s3'') (Some (js ''Section'')) 18 0 0)\<lparr>n_label := js ''1''\<rparr>,
                   (plainNode (js ''s1'') (Some (js ''Section'')) 18 0 0)\<lparr>n_label := js ''2''\<rparr>,
                   (plainNode (js ''s2'') (Some (js ''Section'')) 18 0 0)\<lparr>n_label := js ''3''\<rparr>],
          edges = []\<rparr>
   \<and> (\<exists>n\<in>set [(plainNode (js ''s3'') (Some (js ''Section'')) 18 0 0)\<lparr>n_label := js ''1''\<rparr>,
                (plainNode (js ''s1'') (Some (js ''Section'')) 18 0 0)\<lparr>n_label := js ''2''\<rparr>,
                (plainNode (js ''s2'') (Some (js ''Section'')) 18 0 0)\<lparr>n_label := js ''3''\<rparr>].
         nodeType n = Some (js ''Section'') \<and> n_key n = js ''s1'' \<and> n_label n = digits (1 + 1))
   \<and> map digits [0 + 1, 1 + 1, 2 + 1] = [js ''1'', js ''2'', js ''3'']"
proof -
  let ?ns = "the (data_nodes sectionOrderData)"
  have n: "data_nodes sectionOrderData = Some ?ns"
    by (simp add: sectionOrderData_def)
  have ne: "?ns \<noteq> []" by (simp add: sectionOrderData_def)
  have H: "noShadowedSection ?ns"
    by (simp add: noShadowedSection_def sectionOrderData_def rawNode_def js_def)
  have ord: "sectionOrder ?ns = [js ''s3'', js ''s1'', js ''s2'']"
    by (simp add: sectionOrder_def sectionIds_def sectionOrderData_def rawNode_def js_def)
  have dg: "map digits [0 + 1, 1 + 1, 2 + 1] = [js ''1'', js ''2'', js ''3'']"
    by (simp add: digits.simps js_def)
  from section_labels_follow_first_appearance [OF n ne build_sectionOrderData] H
  have "\<forall>i<length (sectionOrder ?ns).
          \<exists>n\<in>set (nodes \<lparr>nodes = [(plainNode (js ''s3'') (Some (js ''Section'')) 18 0 0)\<lparr>n_label := js ''1''\<rparr>,
                   (plainNode (js ''s1'') (Some (js ''Section'')) 18 0 0)\<lparr>n_label := js ''2''\<rparr>,
                   (plainNode (js ''s2'') (Some (js ''Section'')) 18 0 0)\<lparr>n_label := js ''3''\<rparr>],
          edges = []\<rparr>). nodeType n = Some (js ''Section'')
            \<and> n_key n = sectionOrder ?ns ! i \<and> n_label n = digits (i + 1)"
    by blast
  then have "\<exists>n\<in>set [(plainNode (js ''s3'') (Some (js ''Section'')) 18 0 0)\<lparr>n_label := js ''1''\<rparr>,
                (plainNode (js ''s1'') (Some (js ''Section'')) 18 0 0)\<lparr>n_label := js ''2''\<rparr>,
                (plainNode (js ''s2'') (Some (js ''Section'')) 18 0 0)\<lparr>n_label := js ''3''\<rparr>].
         nodeType n = Some (js ''Section'') \<and> n_key n = js ''s1'' \<and> n_label n = digits (1 + 1)"
    unfolding ord by (drule_tac x = 1 in spec) simp
  then show ?thesis using H ord build_sectionOrderData dg by blast
qed

section \<open>Edge size and color\<close>

text \<open>
  C8, as stated: an accepted edge of raw size \<open>s\<close> has size \<open>max s 1.5\<close> in a graph that is
  not dense.  The code takes \<^verbatim>\<open>edge.size || 2\<close>, so the raw size 0 counts as absent: the
  resolved size is 2, not 1.5.
\<close>

theorem zero_size_is_replaced_by_default:
  "edge_size ((rawEdge JUndefined (JString (js ''a'')) (JString (js ''b'')))\<lparr>edge_size := Some 0\<rparr>) = Some 0
   \<and> buildGraphFromData exactOps noSettings originLayout zeroSizeData False =
       Inr (twoNodes\<lparr>edges := [plainEdge (js ''edge-a-b-0'') (js ''a'') (js ''b'') 2]\<rparr>)
   \<and> e_size (plainEdge (js ''edge-a-b-0'') (js ''a'') (js ''b'') 2) = 2
   \<and> e_size (plainEdge (js ''edge-a-b-0'') (js ''a'') (js ''b'') 2) \<noteq> max (0 :: real) 1.5"
proof -
  have "e_size (plainEdge (js ''edge-a-b-0'') (js ''a'') (js ''b'') 2) = 2"
    "e_size (plainEdge (js ''edge-a-b-0'') (js ''a'') (js ''b'') 2) \<noteq> max (0 :: real) 1.5"
    by (simp_all add: plainEdge_def)
  then show ?thesis using build_zeroSizeData by (simp add: rawEdge_def)
qed

lemma buildGraphFromData_edges:
  assumes "data_nodes d = Some ns" and "ns \<noteq> []" and "data_edges d = Some es"
    and "buildGraphFromData fl inferSettings layout d w = Inr g"
  shows "\<exists>g1. edges g1 = [] \<and> map withoutPosition (nodes g1) = nodes (nodePass ns)
           \<and> edges g = edges (es_graph (edgeLoop fl (length ns > 200 \<or> length es > 500) es
                                          (length es) g1))"
proof -
  from assms(4) obtain g0 c where c: "constructGraph fl d w = Inr (g0, c)"
    and g: "edges g = edges g0"
    by (auto simp: buildGraphFromData_def split: sum.splits option.splits)
  from constructGraph_edges [OF assms(1,2) c] assms(3) consider
    (loop) g1 where "es \<noteq> []" "edges g1 = []"
      "map withoutPosition (nodes g1) = nodes (nodePass ns)"
      "g0 = es_graph (addEdges fl (length ns > 200 \<or> length es > 500) es g1)"
    | (none) "es = []" "edges g0 = []"
    by auto
  then show ?thesis
  proof cases
    case loop
    then show ?thesis using g by (auto simp: edgeLoop_all)
  next
    case none
    have "map withoutPosition (nodes g) = nodes (nodePass ns)"
      using buildGraphFromData_nodes [OF assms(1,2,4)] .
    moreover have "edges g = []" using g none(2) by simp
    ultimately show ?thesis using none(1) by (intro exI [of _ g]) simp
  qed
qed

text \<open>
  C8, amended: the dense flag is true iff the number of raw node records is above 200 or
  the number of raw edge records is above 500 (both counted before any record is
  dropped).  The edges of the output are the edges that the accepted records append, one
  each, and the edge appended by an accepted record has the trimmed source and target of
  that record; with \<open>s\<close> the raw size of the record, or 2 when the size is absent or 0, its
  size is \<open>max (s * 0.8) 1.5\<close> (the product of the doubles) when the flag is true and
  \<open>max s 1.5\<close> otherwise, and its color is the explicit color of the record, or "#60a5fa"
  when the color is absent or empty, followed by "DD".
\<close>

theorem edge_size_and_color_resolution:
  assumes "data_nodes d = Some ns" and "ns \<noteq> []" and "data_edges d = Some es"
    and "buildGraphFromData fl inferSettings layout d w = Inr g"
  shows "\<exists>g1. edges g1 = [] \<and> map withoutPosition (nodes g1) = nodes (nodePass ns)
           \<and> edges g = edges (es_graph (edgeLoop fl (length ns > 200 \<or> length es > 500) es
                                          (length es) g1))
           \<and> (\<forall>i<length es.
                 accepted fl (length ns > 200 \<or> length es > 500) (i, es ! i)
                   (edgeLoop fl (length ns > 200 \<or> length es > 500) es i g1) \<longrightarrow>
                 (\<exists>e. acceptedAs fl (length ns > 200 \<or> length es > 500) es g1 i e))
           \<and> (\<forall>e\<in>set (edges g).
                 \<exists>i. acceptedAs fl (length ns > 200 \<or> length es > 500) es g1 i e)
           \<and> (\<forall>i e. acceptedAs fl (length ns > 200 \<or> length es > 500) es g1 i e \<longrightarrow>
                 e \<in> set (edges g)
                 \<and> (\<exists>r. es ! i = EdgeObject r
                      \<and> e_source e = trim (String_of (edge_source r))
                      \<and> e_target e = trim (String_of (edge_target r))
                      \<and> e_size e =
                          (if length ns > 200 \<or> length es > 500
                           then max (js_mul fl (or_number (edge_size r) 2) 0.8) 1.5
                           else max (or_number (edge_size r) 2) 1.5)
                      \<and> e_color e = or_string (edge_color r) (js ''#60a5fa'') @ js ''DD''))"
proof -
  let ?dense = "length ns > 200 \<or> length es > 500"
  from buildGraphFromData_edges [OF assms] obtain g1 where
    g1: "edges g1 = []" "map withoutPosition (nodes g1) = nodes (nodePass ns)"
      "edges g = edges (es_graph (edgeLoop fl ?dense es (length es) g1))"
    by blast
  have a: "\<exists>e. acceptedAs fl ?dense es g1 i e"
    if "i < length es" "accepted fl ?dense (i, es ! i) (edgeLoop fl ?dense es i g1)" for i
    using accepted_appends [OF that] by blast
  have b: "\<exists>i. acceptedAs fl ?dense es g1 i e" if "e \<in> set (edges g)" for e
    using edgeLoop_edges_origin [OF g1(1) le_refl, of e fl ?dense es] that g1(3) by auto
  have c: "e \<in> set (edges g)
       \<and> (\<exists>r. es ! i = EdgeObject r
            \<and> e_source e = trim (String_of (edge_source r))
            \<and> e_target e = trim (String_of (edge_target r))
            \<and> e_size e =
                (if ?dense then max (js_mul fl (or_number (edge_size r) 2) 0.8) 1.5
                 else max (or_number (edge_size r) 2) 1.5)
            \<and> e_color e = or_string (edge_color r) (js ''#60a5fa'') @ js ''DD'')"
    if acc: "acceptedAs fl ?dense es g1 i e" for i e
  proof -
    from acceptedAs_kept [OF acc] have mem: "e \<in> set (edges g)" using g1(3) by simp
    from acceptedAs_edge [OF acc] obtain r eid where
      r: "es ! i = EdgeObject r"
      and e: "e = makeEdge fl ?dense r eid (trim (String_of (edge_source r)))
                  (trim (String_of (edge_target r)))"
      by blast
    have "e_size e = edgeSize fl ?dense r" unfolding e by (simp only: e_size_makeEdge)
    then have sz: "e_size e =
                (if ?dense then max (js_mul fl (or_number (edge_size r) 2) 0.8) 1.5
                 else max (or_number (edge_size r) 2) 1.5)"
      by (simp only: edgeSize_def)
    have rest: "e_color e = or_string (edge_color r) (js ''#60a5fa'') @ js ''DD''"
      "e_source e = trim (String_of (edge_source r))"
      "e_target e = trim (String_of (edge_target r))"
      unfolding e by (simp_all add: makeEdge_def edgeColor_def)
    show ?thesis using mem r sz rest by blast
  qed
  show ?thesis
  proof (intro exI [of _ g1] conjI allI impI ballI)
    show "edges g1 = []" "map withoutPosition (nodes g1) = nodes (nodePass ns)"
      "edges g = edges (es_graph (edgeLoop fl ?dense es (length es) g1))"
      using g1 by simp_all
  next
    fix i assume "i < length es" "accepted fl ?dense (i, es ! i) (edgeLoop fl ?dense es i g1)"
    then show "\<exists>e. acceptedAs fl ?dense es g1 i e" by (rule a)
  next
    fix e assume "e \<in> set (edges g)"
    then show "\<exists>i. acceptedAs fl ?dense es g1 i e" by (rule b)
  next
    fix i e assume acc: "acceptedAs fl ?dense es g1 i e"
    from c [OF acc] show "e \<in> set (edges g)" by (rule conjunct1)
    from c [OF acc] show "\<exists>r. es ! i = EdgeObject r
            \<and> e_source e = trim (String_of (edge_source r))
            \<and> e_target e = trim (String_of (edge_target r))
            \<and> e_size e =
                (if ?dense then max (js_mul fl (or_number (edge_size r) 2) 0.8) 1.5
                 else max (or_number (edge_size r) 2) 1.5)
            \<and> e_color e = or_string (edge_color r) (js ''#60a5fa'') @ js ''DD''"
      by (rule conjunct2)
  qed
qed

text \<open>201 node records for two distinct ids make the graph dense: the edge of raw size 5
  gets size 4.\<close>

theorem edge_size_and_color_resolution_witness:
  "length (the (data_nodes denseData)) = 201
   \<and> buildGraphFromData exactOps noSettings originLayout denseData False =
       Inr (twoNodes\<lparr>edges := [plainEdge (js ''edge-a-b-0'') (js ''a'') (js ''b'') 4]\<rparr>)
   \<and> e_size (plainEdge (js ''edge-a-b-0'') (js ''a'') (js ''b'') 4)
       = max (js_mul exactOps 5 0.8) 1.5
   \<and> e_color (plainEdge (js ''edge-a-b-0'') (js ''a'') (js ''b'') 4) = js ''#60a5fa'' @ js ''DD''"
proof -
  let ?r = "(rawEdge JUndefined (JString (js ''a'')) (JString (js ''b'')))\<lparr>edge_size := Some 5\<rparr>"
  let ?ns = "the (data_nodes denseData)"
  let ?e = "plainEdge (js ''edge-a-b-0'') (js ''a'') (js ''b'') 4"
  have n: "data_nodes denseData = Some ?ns" "?ns \<noteq> []"
    by (simp_all add: denseData_def)
  have es: "data_edges denseData = Some [EdgeObject ?r]" by (simp add: denseData_def)
  have len: "length ?ns = 201" by (simp add: denseData_def)
  from edge_size_and_color_resolution [OF n es build_denseData] obtain g1 where
    every: "\<And>e. e \<in> set (edges (twoNodes\<lparr>edges := [?e]\<rparr>)) \<Longrightarrow>
       \<exists>i. acceptedAs exactOps (length ?ns > 200 \<or> length [EdgeObject ?r] > 500)
              [EdgeObject ?r] g1 i e"
    and attrs: "\<And>i e. acceptedAs exactOps (length ?ns > 200 \<or> length [EdgeObject ?r] > 500)
              [EdgeObject ?r] g1 i e \<Longrightarrow>
       \<exists>r. [EdgeObject ?r] ! i = EdgeObject r
          \<and> e_size e =
              (if length ?ns > 200 \<or> length [EdgeObject ?r] > 500
               then max (js_mul exactOps (or_number (edge_size r) 2) 0.8) 1.5
               else max (or_number (edge_size r) 2) 1.5)
          \<and> e_color e = or_string (edge_color r) (js ''#60a5fa'') @ js ''DD''"
    by blast
  from every [of ?e] obtain i where
    i: "acceptedAs exactOps (length ?ns > 200 \<or> length [EdgeObject ?r] > 500) [EdgeObject ?r] g1 i ?e"
    by auto
  then have "i < length [EdgeObject ?r]" by (simp only: acceptedAs_def)
  then have i0: "i = 0" by simp
  from attrs [OF i] have
    "e_size ?e = max (js_mul exactOps 5 0.8) 1.5
     \<and> e_color ?e = js ''#60a5fa'' @ js ''DD''"
    unfolding i0 len by (simp add: rawEdge_def)
  then show ?thesis using len build_denseData by simp
qed

section \<open>Radial layout\<close>



section \<open>Nodes outside the six categories\<close>

text \<open>
  A node whose type is the name of a member of \<^verbatim>\<open>Object.prototype\<close> makes the grouping
  loop of either layout throw, and nothing catches the exception inside the build.
\<close>

lemma constructGraph_constructorData: "constructGraph fl constructorData w = Inl TypeError"
  by (simp add: constructGraph_def constructorData_def rawNode_def emptyGraph_def hasNode_def
      addNode_def makeNode_def applyWordLayout_def applyRadialLayout_def
      groupKey_def objectPrototypeKeys_def js_def Let_def)

text \<open>
  C10: a node whose type is none of the six categories gets no position from either layout
  and enters the refinement at (0, 0).  For the unknown type string "constructor" the code
  does not get that far: the build ends with a TypeError in both modes.
\<close>

theorem prototype_named_type_aborts_build:
  "buildGraphFromData exactOps noSettings originLayout constructorData False = Inl TypeError
   \<and> buildGraphFromData exactOps noSettings originLayout constructorData True = Inl TypeError"
  by (simp add: buildGraphFromData_def constructGraph_constructorData)

text \<open>
  Whenever the build gets past the layout, C10 holds: a node whose type is none of the six
  categories is still at (0, 0) when the refinement stage is called.
\<close>

lemma other_types_enter_refinement_at_origin:
  assumes ns: "data_nodes d = Some ns" "ns \<noteq> []"
    and c: "constructGraph fl d w = Inr (g, c)"
    and n: "n \<in> set (nodes g)"
    and ty: "nodeType n \<notin> Some ` set typeOrder"
  shows "n_x n = 0 \<and> n_y n = 0 \<and> refinementCall inferSettings w g \<noteq> None"
proof -
  let ?g0 = "nodePass ns"
  from ns c obtain g1 where
    lay: "(if w then applyWordLayout ?g0 else applyRadialLayout fl ?g0) = Inr g1"
    and g: "nodes g = nodes g1"
    by (auto simp: constructGraph_def Let_def nodePass_def sectionIdMapOf_def
        split: sum.splits option.splits if_splits)
  have d0: "distinct (map n_key (nodes ?g0))"
    by (simp add: nodePass_def addNodes_emptyGraph_distinct)
  have "applyWordLayout ?g0 = Inr g1 \<or> applyRadialLayout fl ?g0 = Inr g1"
    using lay by (simp split: if_splits)
  from layout_leaves_other_types [OF this d0 _ ty] n g have "n \<in> set (nodes ?g0)" by simp
  then obtain r where "n = makeNode (sectionIdMapOf ns) r"
    by (auto simp: nodePass_def dest: addNodes_emptyGraph_first)
  then have "n_x n = 0" "n_y n = 0" by (simp_all add: makeNode_def)
  moreover have "nodes g \<noteq> []" using n by auto
  ultimately show ?thesis by (simp add: refinementCall_def)
qed

end
